theory Spec2Isabelle
  imports Main "HOL-Library.AList"
begin

section \<open>JavaScript values\<close>

text \<open>
  The values the normalizers of \<^verbatim>\<open>app/models/variant-images.server.js\<close> receive are
  whatever a JSON metafield or a form field holds. \<open>JNull\<close> stands for both
  \<^verbatim>\<open>null\<close> and \<^verbatim>\<open>undefined\<close>: the code only ever tests them together
  (\<^verbatim>\<open>== null\<close>, \<^verbatim>\<open>??\<close>, \<^verbatim>\<open>?.\<close>, truthiness). A number is carried by the text
  \<^verbatim>\<open>String(n)\<close> gives for it, which is all the code reads of a number (its
  truthiness: \<^verbatim>\<open>0\<close>, \<^verbatim>\<open>-0\<close> and \<^verbatim>\<open>NaN\<close> are falsy and print as
  \<^verbatim>\<open>0\<close>, \<^verbatim>\<open>0\<close>, \<^verbatim>\<open>NaN\<close>). An object is the list of its own enumerable
  properties in the order \<^verbatim>\<open>Object.entries\<close> lists them.
\<close>

datatype json =
    JNull
  | JBool bool
  | JNum string
  | JStr string
  | JArr "json list"
  | JObj "(string \<times> json) list"

datatype error = TypeError

text \<open>\<^verbatim>\<open>Boolean(v)\<close>, \<^verbatim>\<open>!v\<close>, \<^verbatim>\<open>v ? a : b\<close>.\<close>

fun truthy :: "json \<Rightarrow> bool" where
  "truthy JNull = False"
| "truthy (JBool b) = b"
| "truthy (JNum r) = (r \<noteq> ''0'' \<and> r \<noteq> ''NaN'')"
| "truthy (JStr s) = (s \<noteq> [])"
| "truthy (JArr xs) = True"
| "truthy (JObj kvs) = True"

text \<open>
  \<^verbatim>\<open>String(v)\<close>: an array prints its elements joined by commas, \<^verbatim>\<open>null\<close> and
  \<^verbatim>\<open>undefined\<close> elements as the empty text; a plain object prints as
  \<^verbatim>\<open>[object Object]\<close>. On an object with an own property \<^verbatim>\<open>toString\<close> (or an
  array holding one) \<^verbatim>\<open>String\<close> throws instead; \<open>js_String\<close> is the text it returns on
  every other value. \<^verbatim>\<open>safeParseJson\<close> applies it to values that are not objects, and the
  identifiers of the examples below are strings.
\<close>

fun js_String :: "json \<Rightarrow> string"
  and js_join :: "json list \<Rightarrow> string" where
  "js_String JNull = ''null''"
| "js_String (JBool b) = (if b then ''true'' else ''false'')"
| "js_String (JNum r) = r"
| "js_String (JStr s) = s"
| "js_String (JArr xs) = js_join xs"
| "js_String (JObj kvs) = ''[object Object]''"
| "js_join [] = []"
| "js_join [x] = (if x = JNull then [] else js_String x)"
| "js_join (x # y # ys) = (if x = JNull then [] else js_String x) @ '','' @ js_join (y # ys)"

text \<open>
  Reading a property with a fixed name (\<^verbatim>\<open>v.mapping\<close>, \<^verbatim>\<open>v.mode\<close>,
  \<^verbatim>\<open>v.enabled\<close>, ...) from a value that is not \<^verbatim>\<open>null\<close>: an object gives its own
  property, anything else gives \<^verbatim>\<open>undefined\<close> (\<open>None\<close>). None of the names the
  code reads this way is a member of \<^verbatim>\<open>Object.prototype\<close>, \<^verbatim>\<open>Array.prototype\<close> or
  \<^verbatim>\<open>String.prototype\<close>. On \<^verbatim>\<open>null\<close> the read throws; the callers below guard it
  or fail, as the source does.
\<close>

fun get_prop :: "json \<Rightarrow> string \<Rightarrow> json option" where
  "get_prop (JObj kvs) k = map_of kvs k"
| "get_prop v k = None"

text \<open>\<^verbatim>\<open>typeof v === "object"\<close> (true of \<^verbatim>\<open>null\<close>, arrays and objects).\<close>

fun typeof_object :: "json \<Rightarrow> bool" where
  "typeof_object JNull = True"
| "typeof_object (JArr xs) = True"
| "typeof_object (JObj kvs) = True"
| "typeof_object v = False"

section \<open>Permissive parsing\<close>

text \<open>
  \<^verbatim>\<open>safeParseJson(value, fallback)\<close>. \<^verbatim>\<open>JSON.parse\<close> is the platform's: it is the
  parameter \<open>parse\<close>, \<open>None\<close> when it throws. It is applied to \<^verbatim>\<open>String(value)\<close>
  for a value that is neither \<^verbatim>\<open>null\<close>, the empty string nor an object.
\<close>

definition safeParseJson :: "(string \<Rightarrow> json option) \<Rightarrow> json \<Rightarrow> json \<Rightarrow> json" where
  "safeParseJson parse v fallback =
     (if v = JNull \<or> v = JStr [] then fallback
      else if typeof_object v then v
      else (case parse (js_String v) of Some r \<Rightarrow> r | None \<Rightarrow> fallback))"

section \<open>Settings normalizer\<close>

record settings =
  enabled :: bool
  allowSharedImages :: bool
  hideUnassignedImages :: bool

definition DEFAULT_SETTINGS :: settings where
  "DEFAULT_SETTINGS = \<lparr> enabled = True, allowSharedImages = True, hideUnassignedImages = False \<rparr>"

text \<open>\<^verbatim>\<open>typeof input.f === "boolean" ? input.f : dflt\<close>, for \<open>input\<close> not \<^verbatim>\<open>null\<close>.\<close>

definition bool_field :: "json \<Rightarrow> string \<Rightarrow> bool \<Rightarrow> bool" where
  "bool_field input f dflt = (case get_prop input f of Some (JBool b) \<Rightarrow> b | _ \<Rightarrow> dflt)"

text \<open>
  \<^verbatim>\<open>normalizeSettings(rawSettings)\<close>. When \<^verbatim>\<open>safeParseJson\<close> hands back \<^verbatim>\<open>null\<close>
  (the parser's answer to the JSON text \<^verbatim>\<open>null\<close>), \<^verbatim>\<open>input.enabled\<close> throws a
  TypeError.
\<close>

definition normalizeSettings :: "(string \<Rightarrow> json option) \<Rightarrow> json \<Rightarrow> error + settings" where
  "normalizeSettings parse rawSettings =
     (let input = safeParseJson parse rawSettings (JObj []) in
      if input = JNull then Inl TypeError
      else Inr \<lparr> enabled = bool_field input ''enabled'' (enabled DEFAULT_SETTINGS),
                 allowSharedImages =
                   bool_field input ''allowSharedImages'' (allowSharedImages DEFAULT_SETTINGS),
                 hideUnassignedImages =
                   bool_field input ''hideUnassignedImages'' (hideUnassignedImages DEFAULT_SETTINGS) \<rparr>)"

section \<open>Plain objects: property order, writes and reads\<close>

text \<open>
  The normalizers build their results by assignment \<^verbatim>\<open>obj[k] = v\<close> into a fresh
  \<^verbatim>\<open>{}\<close> and later list them with \<^verbatim>\<open>Object.entries\<close>. JavaScript lists the own
  properties whose names are array indices (canonical decimal numerals below
  \<open>2^32 - 1\<close>) first, in ascending numeric order, and then the other names in the order
  they were created.
\<close>

definition dec_val :: "string \<Rightarrow> int" where
  "dec_val s = foldl (\<lambda>n c. 10 * n + (of_char c - 48)) 0 s"

definition array_index :: "string \<Rightarrow> int option" where
  "array_index s =
     (if s \<noteq> [] \<and> list_all (\<lambda>c. c \<in> set ''0123456789'') s
         \<and> (s = ''0'' \<or> hd s \<noteq> CHR ''0'') \<and> dec_val s < 4294967295
      then Some (dec_val s) else None)"

fun insert_index :: "int \<Rightarrow> string \<Rightarrow> 'v \<Rightarrow> (string \<times> 'v) list \<Rightarrow> (string \<times> 'v) list" where
  "insert_index n k v [] = [(k, v)]"
| "insert_index n k v (p # ps) =
     (case array_index (fst p) of
        Some m \<Rightarrow> if m < n then p # insert_index n k v ps else (k, v) # p # ps
      | None \<Rightarrow> (k, v) # p # ps)"

text \<open>
  Defining an own property (\<^verbatim>\<open>{...obj, [k]: v}\<close>): an existing own property keeps its
  place; a new one is placed as above. The assignment \<^verbatim>\<open>obj[k] = v\<close> on a plain object
  does the same, except under the name \<^verbatim>\<open>__proto__\<close>: that is the accessor of
  \<^verbatim>\<open>Object.prototype\<close>, and assigning to it creates no own property.
\<close>

definition js_define :: "(string \<times> 'v) list \<Rightarrow> string \<Rightarrow> 'v \<Rightarrow> (string \<times> 'v) list" where
  "js_define obj k v =
     (if map_of obj k \<noteq> None then AList.update k v obj
      else (case array_index k of
              Some n \<Rightarrow> insert_index n k v obj
            | None \<Rightarrow> obj @ [(k, v)]))"

definition js_set :: "(string \<times> 'v) list \<Rightarrow> string \<Rightarrow> 'v \<Rightarrow> (string \<times> 'v) list" where
  "js_set obj k v =
     (if k = ''__proto__'' \<and> map_of obj k = None then obj else js_define obj k v)"

text \<open>
  \<^verbatim>\<open>obj[k]\<close> with a computed name on a plain object: the own property if there is one,
  else what \<^verbatim>\<open>Object.prototype\<close> has under that name (a function, or the prototype
  itself for \<^verbatim>\<open>__proto__\<close>), else \<^verbatim>\<open>undefined\<close>.
\<close>

datatype 'v lookup = Own 'v | Inherited | Absent

definition object_prototype_keys :: "string list" where
  "object_prototype_keys =
     [''constructor'', ''__defineGetter__'', ''__defineSetter__'', ''hasOwnProperty'',
      ''__lookupGetter__'', ''__lookupSetter__'', ''isPrototypeOf'', ''propertyIsEnumerable'',
      ''toString'', ''valueOf'', ''__proto__'', ''toLocaleString'']"

definition js_get :: "(string \<times> 'v) list \<Rightarrow> string \<Rightarrow> 'v lookup" where
  "js_get obj k =
     (case map_of obj k of
        Some v \<Rightarrow> Own v
      | None \<Rightarrow> if k \<in> set object_prototype_keys then Inherited else Absent)"

text \<open>\<^verbatim>\<open>[...new Set(xs)]\<close>: the elements in the order of their first occurrence.\<close>

definition set_add :: "'a list \<Rightarrow> 'a \<Rightarrow> 'a list" where
  "set_add acc x = (if x \<in> set acc then acc else acc @ [x])"

definition dedupe :: "'a list \<Rightarrow> 'a list" where
  "dedupe xs = foldl set_add [] xs"

section \<open>Identifiers\<close>

text \<open>
  \<^verbatim>\<open>toNumericId\<close> as the admin block extension defines it:
  \<^verbatim>\<open>if (!gid) return ""; return String(gid).split("/").pop();\<close>
  The server module imports its \<^verbatim>\<open>toNumericId\<close> from \<^verbatim>\<open>app/utils/ids\<close>, which is not
  among the sources; the normalizers below take it as the parameter \<open>tid\<close>, a function
  from values to strings.
\<close>

definition last_segment :: "string \<Rightarrow> string" where
  "last_segment s = rev (takeWhile (\<lambda>c. c \<noteq> CHR ''/'') (rev s))"

definition toNumericId :: "json \<Rightarrow> string" where
  "toNumericId gid = (if \<not> truthy gid then [] else last_segment (js_String gid))"

section \<open>Mapping normalizers\<close>

type_synonym table = "(string \<times> string list) list"

text \<open>
  \<^verbatim>\<open>parsed && typeof parsed === "object" && parsed.mapping ? parsed.mapping : parsed\<close>
\<close>

definition unwrap_mapping :: "json \<Rightarrow> json" where
  "unwrap_mapping parsed =
     (if truthy parsed \<and> typeof_object parsed
      then (case get_prop parsed ''mapping'' of
              Some m \<Rightarrow> if truthy m then m else parsed
            | None \<Rightarrow> parsed)
      else parsed)"

text \<open>
  \<^verbatim>\<open>Array.isArray(value) ? value : Array.isArray(value?.imageIds) ? value.imageIds : []\<close>
\<close>

definition candidateImages :: "json \<Rightarrow> json list" where
  "candidateImages v =
     (case v of
        JArr xs \<Rightarrow> xs
      | _ \<Rightarrow> (case get_prop v ''imageIds'' of Some (JArr ys) \<Rightarrow> ys | _ \<Rightarrow> []))"

text \<open>\<^verbatim>\<open>ids.length ? new Set(ids.map(toNumericId)) : null\<close>\<close>

definition valid_set :: "('a \<Rightarrow> 'b) \<Rightarrow> 'a list \<Rightarrow> 'b list option" where
  "valid_set f ids = (if ids = [] then None else Some (map f ids))"

definition in_valid :: "'b list option \<Rightarrow> 'b \<Rightarrow> bool" where
  "in_valid S x = (case S of Some ys \<Rightarrow> x \<in> set ys | None \<Rightarrow> True)"

text \<open>
  \<^verbatim>\<open>[...new Set(candidateImages.map(toNumericId).filter(Boolean))].filter((imageId) =>
  validImageSet ? validImageSet.has(imageId) : true)\<close>
\<close>

definition entry_imageIds :: "(json \<Rightarrow> string) \<Rightarrow> string list option \<Rightarrow> json \<Rightarrow> string list" where
  "entry_imageIds tid validImageSet v =
     filter (in_valid validImageSet)
       (dedupe (filter (\<lambda>i. i \<noteq> []) (map tid (candidateImages v))))"

text \<open>The body of the loop over \<^verbatim>\<open>Object.entries(source)\<close> in \<^verbatim>\<open>normalizeOptionMapping\<close>.\<close>

definition option_step ::
  "(json \<Rightarrow> string) \<Rightarrow> string list option \<Rightarrow> string list option \<Rightarrow> table \<Rightarrow> string \<times> json \<Rightarrow> table" where
  "option_step tid validValuesSet validImageSet normalized e =
     (let optionValue = fst e in
      if optionValue = [] then normalized
      else if \<not> in_valid validValuesSet optionValue then normalized
      else let imageIds = entry_imageIds tid validImageSet (snd e) in
           if imageIds \<noteq> [] then js_set normalized optionValue imageIds else normalized)"

definition normalizeOptionMapping ::
  "(string \<Rightarrow> json option) \<Rightarrow> (json \<Rightarrow> string) \<Rightarrow> json \<Rightarrow> string list \<Rightarrow> json list \<Rightarrow> table" where
  "normalizeOptionMapping parse tid rawMapping validOptionValues validImageIds =
     (case unwrap_mapping (safeParseJson parse rawMapping (JObj [])) of
        JObj entries \<Rightarrow>
          foldl (option_step tid (valid_set (\<lambda>x. x) validOptionValues) (valid_set tid validImageIds))
            [] entries
      | _ \<Rightarrow> [])"

text \<open>The body of the loop in \<^verbatim>\<open>normalizeMapping\<close> (keys are variant IDs).\<close>

definition variant_step ::
  "(json \<Rightarrow> string) \<Rightarrow> string list option \<Rightarrow> string list option \<Rightarrow> table \<Rightarrow> string \<times> json \<Rightarrow> table" where
  "variant_step tid validVariantSet validImageSet normalized e =
     (let variantId = tid (JStr (fst e)) in
      if variantId = [] then normalized
      else if \<not> in_valid validVariantSet variantId then normalized
      else let imageIds = entry_imageIds tid validImageSet (snd e) in
           if imageIds \<noteq> [] then js_set normalized variantId imageIds else normalized)"

definition normalizeMapping ::
  "(string \<Rightarrow> json option) \<Rightarrow> (json \<Rightarrow> string) \<Rightarrow> json \<Rightarrow> json list \<Rightarrow> json list \<Rightarrow> table" where
  "normalizeMapping parse tid rawMapping validVariantIds validImageIds =
     (case unwrap_mapping (safeParseJson parse rawMapping (JObj [])) of
        JObj entries \<Rightarrow>
          foldl (variant_step tid (valid_set tid validVariantIds) (valid_set tid validImageIds))
            [] entries
      | _ \<Rightarrow> [])"

section \<open>Product mapping normalizer and legacy migration\<close>

record product_option =
  name :: string
  option_values :: "string list"

text \<open>A variant: its id and its \<^verbatim>\<open>selectedOptions\<close>, a list of (name, value), if it has one.\<close>

record variant =
  variant_id :: json
  selectedOptions :: "(string \<times> string) list option"

record canonical =
  mode :: string
  optionName :: string
  mapping :: table

text \<open>\<^verbatim>\<open>optionsList[0]?.name ?? "Option"\<close>\<close>

definition fallbackOptionName :: "product_option list \<Rightarrow> string" where
  "fallbackOptionName optionsList = (case optionsList of [] \<Rightarrow> ''Option'' | opt # rest \<Rightarrow> name opt)"

text \<open>
  \<^verbatim>\<open>optionsList.some((option) => option.name === parsed.optionName) ? parsed.optionName
  : fallbackOptionName\<close>
\<close>

definition resolveOptionName :: "product_option list \<Rightarrow> json \<Rightarrow> string" where
  "resolveOptionName optionsList parsed =
     (case get_prop parsed ''optionName'' of
        Some (JStr n) \<Rightarrow> if n \<in> set (map name optionsList) then n else fallbackOptionName optionsList
      | _ \<Rightarrow> fallbackOptionName optionsList)"

text \<open>\<^verbatim>\<open>optionsList.find((option) => option.name === optionName)?.values ?? []\<close>\<close>

definition optionValues :: "product_option list \<Rightarrow> string \<Rightarrow> string list" where
  "optionValues optionsList n =
     (case find (\<lambda>opt. name opt = n) optionsList of Some opt \<Rightarrow> option_values opt | None \<Rightarrow> [])"

text \<open>
  \<^verbatim>\<open>optionValueByVariant\<close>: the \<^verbatim>\<open>Map\<close> filled by
  \<^verbatim>\<open>set(toNumericId(variant.id), selected?.value ?? null)\<close>, a later variant replacing an
  earlier one under the same key. \<open>None\<close> is both "no such key" and \<^verbatim>\<open>null\<close>: the
  reader only tests \<^verbatim>\<open>!optionValue\<close>.
\<close>

definition selectedValue :: "string \<Rightarrow> variant \<Rightarrow> string option" where
  "selectedValue n v =
     map_option snd
       (find (\<lambda>opt. fst opt = n) (case selectedOptions v of Some os \<Rightarrow> os | None \<Rightarrow> []))"

definition optionValueByVariant ::
  "(json \<Rightarrow> string) \<Rightarrow> string \<Rightarrow> variant list \<Rightarrow> string \<Rightarrow> string option" where
  "optionValueByVariant tid n variants =
     foldl (\<lambda>m v. m(tid (variant_id v) := selectedValue n v)) (\<lambda>k. None) variants"

text \<open>
  The loop over \<^verbatim>\<open>Object.entries(legacyVariantMap)\<close>:
  \<^verbatim>\<open>optionMap[optionValue] = [...new Set([...(optionMap[optionValue] ?? []), ...imageList])]\<close>.
  What \<^verbatim>\<open>Object.prototype\<close> has under the name \<^verbatim>\<open>optionValue\<close> is neither
  \<^verbatim>\<open>null\<close> nor iterable, so spreading it throws a TypeError.
\<close>

fun migrate :: "(string \<Rightarrow> string option) \<Rightarrow> table \<Rightarrow> table \<Rightarrow> error + table" where
  "migrate byVariant optionMap [] = Inr optionMap"
| "migrate byVariant optionMap (e # rest) =
     (case byVariant (fst e) of
        None \<Rightarrow> migrate byVariant optionMap rest
      | Some optionValue \<Rightarrow>
          if optionValue = [] then migrate byVariant optionMap rest
          else (case js_get optionMap optionValue of
                  Inherited \<Rightarrow> Inl TypeError
                | Own old \<Rightarrow>
                    migrate byVariant (js_set optionMap optionValue (dedupe (old @ snd e))) rest
                | Absent \<Rightarrow>
                    migrate byVariant (js_set optionMap optionValue (dedupe (snd e))) rest))"

definition normalizeProductMapping ::
  "(string \<Rightarrow> json option) \<Rightarrow> (json \<Rightarrow> string) \<Rightarrow> json \<Rightarrow> product_option list \<Rightarrow> variant list
     \<Rightarrow> json list \<Rightarrow> error + canonical" where
  "normalizeProductMapping parse tid rawValue productOptions variants imageIds =
     (let parsed = safeParseJson parse rawValue (JObj []) in
      if get_prop parsed ''mode'' = Some (JStr ''option'')
      then
        (let n = resolveOptionName productOptions parsed;
             raw = (case get_prop parsed ''mapping'' of
                      None \<Rightarrow> JObj [] | Some JNull \<Rightarrow> JObj [] | Some m \<Rightarrow> m)
         in Inr \<lparr> mode = ''option'', optionName = n,
                   mapping = normalizeOptionMapping parse tid raw (optionValues productOptions n) imageIds \<rparr>)
      else
        (let legacyVariantMap = normalizeMapping parse tid parsed (map variant_id variants) imageIds;
             n = fallbackOptionName productOptions
         in case migrate (optionValueByVariant tid n variants) [] legacyVariantMap of
              Inl err \<Rightarrow> Inl err
            | Inr optionMap \<Rightarrow> Inr \<lparr> mode = ''option'', optionName = n, mapping = optionMap \<rparr>))"

text \<open>A canonical mapping as the value the save path serializes and the normalizer reads back.\<close>

definition encode_entry :: "string \<times> string list \<Rightarrow> string \<times> json" where
  "encode_entry e = (fst e, JArr (map JStr (snd e)))"

definition canonical_json :: "canonical \<Rightarrow> json" where
  "canonical_json c =
     JObj [(''mode'', JStr (mode c)), (''optionName'', JStr (optionName c)),
           (''mapping'', JObj (map encode_entry (mapping c)))]"

text \<open>
  An entry as the normalizers leave it: a non-empty valid key with a non-empty duplicate-free
  list of non-empty valid image IDs in numeric form.
\<close>

definition canonical_entry ::
  "(json \<Rightarrow> string) \<Rightarrow> string list option \<Rightarrow> string list option \<Rightarrow> string \<times> string list \<Rightarrow> bool" where
  "canonical_entry tid VS IS e \<longleftrightarrow>
     fst e \<noteq> [] \<and> in_valid VS (fst e) \<and> snd e \<noteq> [] \<and> distinct (snd e)
     \<and> (\<forall>i\<in>set (snd e). i \<noteq> [] \<and> tid (JStr i) = i \<and> in_valid IS i)"

text \<open>The images a table holds under a key (none when the key is absent).\<close>

definition images_of :: "table \<Rightarrow> string \<Rightarrow> string set" where
  "images_of M c = (case map_of M c of Some l \<Rightarrow> set l | None \<Rightarrow> {})"

section \<open>Storefront script: image identity\<close>

text \<open>
  \<^verbatim>\<open>name.replace(/_\d*x\d*\.([^.]+)$/, ".$1")\<close>. A match ends the string with a dot and a
  non-empty extension free of dots, so the dot is the last one of the name; to its left stand
  a (maximal) run of digits, an \<^verbatim>\<open>x\<close>, a (maximal) run of digits and an underscore. The
  function reads the name from its end; \<open>strip_size_suffix_match\<close> and
  \<open>strip_size_suffix_no_match\<close> below relate it to the pattern.
\<close>

definition is_digit :: "char \<Rightarrow> bool" where
  "is_digit c = (c \<in> set ''0123456789'')"

definition strip_size_suffix :: "string \<Rightarrow> string" where
  "strip_size_suffix nm =
     (let ext_r = takeWhile (\<lambda>c. c \<noteq> CHR ''.'') (rev nm) in
      case dropWhile (\<lambda>c. c \<noteq> CHR ''.'') (rev nm) of
        [] \<Rightarrow> nm
      | dot # stem_r \<Rightarrow>
          if ext_r = [] then nm
          else (case dropWhile is_digit stem_r of
                  [] \<Rightarrow> nm
                | x # s1 \<Rightarrow>
                    if x \<noteq> CHR ''x'' then nm
                    else (case dropWhile is_digit s1 of
                            [] \<Rightarrow> nm
                          | u # s2 \<Rightarrow>
                              if u \<noteq> CHR ''_'' then nm else rev s2 @ ''.'' @ rev ext_r)))"

text \<open>
  \<^verbatim>\<open>baseFilename(url)\<close>: \<^verbatim>\<open>url.split("?")[0]\<close>, then \<^verbatim>\<open>path.split("/").pop() || ""\<close>,
  then the replacement above.
\<close>

definition baseFilename :: "string \<Rightarrow> string" where
  "baseFilename url =
     (if url = [] then []
      else strip_size_suffix (last_segment (takeWhile (\<lambda>c. c \<noteq> CHR ''?'') url)))"

text \<open>
  \<^verbatim>\<open>filenameToId\<close>: for each entry of \<^verbatim>\<open>imageUrls\<close> (image ID, source URL),
  \<^verbatim>\<open>filenameToId[baseFilename(src)] = imgNumId\<close>.
\<close>

definition build_filenameToId :: "(string \<times> string) list \<Rightarrow> (string \<times> string) list" where
  "build_filenameToId urls = foldl (\<lambda>acc e. js_set acc (baseFilename (snd e)) (fst e)) [] urls"

section \<open>Storefront script: the page\<close>

text \<open>
  A displayed element: the source \<^verbatim>\<open>getImgSrc\<close> reads from it, and the three things
  \<^verbatim>\<open>setVisible\<close> writes (\<^verbatim>\<open>style.display\<close>, the \<^verbatim>\<open>aria-hidden\<close> attribute, the class
  list). The page is a store of elements by identity, with the results of the script's
  queries: \<^verbatim>\<open>findGalleryItems()\<close>, the thumbnail selectors, and the element the theme marks
  \<^verbatim>\<open>aria-current='true'\<close>. The same element may occur in several lists. None of the
  selectors reads what \<^verbatim>\<open>setVisible\<close> writes, so the lists do not change during a pass.
\<close>

record element =
  img_src :: string
  display :: "string option"
  aria_hidden :: "string option"
  class_list :: "string list"

record page =
  nodes :: "nat \<Rightarrow> element"
  gallery :: "nat list"
  thumbs :: "nat list"
  current :: "nat option"

definition setVisible :: "element \<Rightarrow> bool \<Rightarrow> element" where
  "setVisible el visible =
     (if visible
      then el\<lparr> display := None, aria_hidden := None,
                class_list := removeAll ''vi--hidden'' (class_list el) \<rparr>
      else el\<lparr> display := Some ''none'', aria_hidden := Some ''true'',
                class_list := (if ''vi--hidden'' \<in> set (class_list el) then class_list el
                               else class_list el @ [''vi--hidden'']) \<rparr>)"

definition marked_hidden :: "element \<Rightarrow> bool" where
  "marked_hidden el \<longleftrightarrow>
     display el = Some ''none'' \<and> aria_hidden el = Some ''true'' \<and> ''vi--hidden'' \<in> set (class_list el)"

definition marked_visible :: "element \<Rightarrow> bool" where
  "marked_visible el \<longleftrightarrow>
     display el = None \<and> aria_hidden el = None \<and> ''vi--hidden'' \<notin> set (class_list el)"

text \<open>\<^verbatim>\<open>items.forEach((item) => setVisible(item, visible(item)))\<close>\<close>

definition apply_visibility :: "(element \<Rightarrow> bool) \<Rightarrow> nat list \<Rightarrow> (nat \<Rightarrow> element) \<Rightarrow> nat \<Rightarrow> element" where
  "apply_visibility dec ids ns = foldl (\<lambda>m i. m(i := setVisible (m i) (dec (m i)))) ns ids"

definition showNone :: "page \<Rightarrow> page" where
  "showNone pg =
     pg\<lparr> nodes := apply_visibility (\<lambda>el. False) (thumbs pg)
                      (apply_visibility (\<lambda>el. False) (gallery pg) (nodes pg)) \<rparr>"

section \<open>Storefront script: the resolution engine\<close>

text \<open>
  The variables the script's functions close over, once the embedded data is read. The
  mapping table is a canonical one (lists of image IDs under string keys), as the server
  embeds it.
\<close>

record engine =
  mappingMode :: string
  mappedOptionName :: "string option"
  mappingTable :: table
  optionNames :: "string list option"
  variantOptions :: "(string \<times> string list) list option"
  hideUnassigned :: bool
  filenameToId :: "(string \<times> string) list"

fun index_of :: "'a \<Rightarrow> 'a list \<Rightarrow> nat option" where
  "index_of x [] = None"
| "index_of x (y # ys) = (if x = y then Some 0 else map_option Suc (index_of x ys))"

text \<open>
  \<^verbatim>\<open>variantOptions?.[variantKey]?.[optionIndex] || "__unknown__"\<close>. A name that
  \<^verbatim>\<open>variantOptions\<close> only inherits gives a function, whose property \<^verbatim>\<open>optionIndex\<close> is
  \<^verbatim>\<open>undefined\<close>, as for a missing name.
\<close>

definition selectedOption :: "(string \<times> string list) list option \<Rightarrow> string \<Rightarrow> nat \<Rightarrow> string" where
  "selectedOption vo variantKey optionIndex =
     (case vo of
        None \<Rightarrow> ''__unknown__''
      | Some m \<Rightarrow>
          (case map_of m variantKey of
             None \<Rightarrow> ''__unknown__''
           | Some sel \<Rightarrow>
               if optionIndex < length sel \<and> sel ! optionIndex \<noteq> [] then sel ! optionIndex
               else ''__unknown__''))"

definition mappingKey :: "engine \<Rightarrow> string \<Rightarrow> string" where
  "mappingKey eng variantKey =
     (case (mappedOptionName eng, optionNames eng) of
        (Some n, Some names) \<Rightarrow>
          if mappingMode eng = ''option'' \<and> n \<noteq> []
          then (case index_of n names of
                  Some optionIndex \<Rightarrow> selectedOption (variantOptions eng) variantKey optionIndex
                | None \<Rightarrow> variantKey)
          else variantKey
      | _ \<Rightarrow> variantKey)"

text \<open>
  The visibility of one element. \<^verbatim>\<open>filenameToId[filename]\<close> is an image ID, or a member
  of \<^verbatim>\<open>Object.prototype\<close> (truthy, and in neither set), or \<^verbatim>\<open>undefined\<close>.
\<close>

definition allAssignedImageIds :: "table \<Rightarrow> string list" where
  "allAssignedImageIds t = concat (map snd t)"

definition is_visible :: "engine \<Rightarrow> string list \<Rightarrow> element \<Rightarrow> bool" where
  "is_visible eng allowedIds el =
     (case js_get (filenameToId eng) (baseFilename (img_src el)) of
        Own imgId \<Rightarrow>
          imgId \<noteq> [] \<and>
          (imgId \<in> set allowedIds
           \<or> (\<not> hideUnassigned eng \<and> imgId \<notin> set (allAssignedImageIds (mappingTable eng))))
      | Inherited \<Rightarrow> \<not> hideUnassigned eng
      | Absent \<Rightarrow> False)"

text \<open>
  \<^verbatim>\<open>activateFirstVisible(firstVisible)\<close>: the element the script clicks, if any. What the
  theme does on that click is not part of the script.
\<close>

definition activateFirstVisible :: "page \<Rightarrow> nat \<Rightarrow> nat option" where
  "activateFirstVisible pg firstVisible =
     (case current pg of
        Some c \<Rightarrow> if ''vi--hidden'' \<in> set (class_list (nodes pg c)) then Some firstVisible else None
      | None \<Rightarrow> None)"

text \<open>
  \<^verbatim>\<open>filterGallery(variantId)\<close>: the page after the pass and the element clicked, or the
  TypeError of \<^verbatim>\<open>new Set(allowedIds)\<close> when \<^verbatim>\<open>mappingTable[mappingKey]\<close> is an inherited
  member of \<^verbatim>\<open>Object.prototype\<close> (not iterable), thrown before any element is touched.
\<close>

definition filterGallery :: "engine \<Rightarrow> string \<Rightarrow> page \<Rightarrow> error + page \<times> nat option" where
  "filterGallery eng variantId pg =
     (if variantId = [] then Inr (pg, None)
      else (case js_get (mappingTable eng) (mappingKey eng variantId) of
              Absent \<Rightarrow> Inr (showNone pg, None)
            | Inherited \<Rightarrow> Inl TypeError
            | Own allowedIds \<Rightarrow>
                if gallery pg = [] then Inr (pg, None)
                else
                  (let dec = is_visible eng allowedIds;
                       firstVisible = find (\<lambda>i. dec (nodes pg i)) (gallery pg);
                       pg' = pg\<lparr> nodes := apply_visibility dec (thumbs pg)
                                              (apply_visibility dec (gallery pg) (nodes pg)) \<rparr>
                   in Inr (pg', case firstVisible of
                                  Some f \<Rightarrow> activateFirstVisible pg' f
                                | None \<Rightarrow> None))))"

section \<open>Storefront script: start-up and events\<close>

text \<open>
  The embedded data (\<^verbatim>\<open>config\<close>). The mapping is either of the option shape
  \<^verbatim>\<open>{mode: "option", optionName, mapping}\<close> or a bare table keyed by variant ID; \<open>None\<close>
  is a missing (falsy) field. The settings may be an object, a JSON text or absent.
\<close>

datatype embedded_mapping = OptionShape string table | VariantShape table

record config =
  cfg_mapping :: "embedded_mapping option"
  cfg_imageUrls :: "(string \<times> string) list option"
  cfg_settings :: json
  cfg_optionNames :: "string list option"
  cfg_variantOptions :: "(string \<times> string list) list option"

text \<open>\<^verbatim>\<open>settings?.f ?? dflt\<close>\<close>

definition setting_or :: "json \<Rightarrow> string \<Rightarrow> json \<Rightarrow> json" where
  "setting_or s f dflt =
     (case get_prop s f of None \<Rightarrow> dflt | Some JNull \<Rightarrow> dflt | Some v \<Rightarrow> v)"

text \<open>
  The top level of the script up to the point where \<^verbatim>\<open>init\<close> is scheduled: \<open>None\<close> when
  it returns before that, else the engine. \<^verbatim>\<open>init\<close> is the only place that calls
  \<^verbatim>\<open>handleVariantChange\<close> or installs a listener or observer.
\<close>

definition boot :: "(string \<Rightarrow> json option) \<Rightarrow> config \<Rightarrow> engine option" where
  "boot parse cfg =
     (case (cfg_mapping cfg, cfg_imageUrls cfg) of
        (Some m, Some urls) \<Rightarrow>
          (let settings = (case cfg_settings cfg of
                             JStr s \<Rightarrow> (case parse s of Some v \<Rightarrow> v | None \<Rightarrow> JNull)
                           | v \<Rightarrow> v)
           in if \<not> truthy (setting_or settings ''enabled'' (JBool True)) then None
              else Some \<lparr> mappingMode = (case m of OptionShape n t \<Rightarrow> ''option'' | VariantShape t \<Rightarrow> ''variant''),
                          mappedOptionName =
                            (case m of OptionShape n t \<Rightarrow> if n = [] then None else Some n
                                     | VariantShape t \<Rightarrow> None),
                          mappingTable = (case m of OptionShape n t \<Rightarrow> t | VariantShape t \<Rightarrow> t),
                          optionNames = cfg_optionNames cfg,
                          variantOptions = cfg_variantOptions cfg,
                          hideUnassigned = truthy (setting_or settings ''hideUnassignedImages'' (JBool False)),
                          filenameToId = build_filenameToId urls \<rparr>)
      | _ \<Rightarrow> None)"

text \<open>
  The script's state once \<^verbatim>\<open>init\<close> runs: \<^verbatim>\<open>lastVariantId\<close> and the page. An event is a
  call of \<^verbatim>\<open>handleVariantChange(id)\<close> (the initial filter, \<^verbatim>\<open>variant:changed\<close>, the
  observers, \<^verbatim>\<open>popstate\<close>) or of \<^verbatim>\<open>filterGallery(id)\<close> (\<^verbatim>\<open>shopify:section:load\<close>). An
  exception ends the handler and leaves the page as it is.
\<close>

datatype event = VariantChange string | SectionLoad string

definition page_after :: "engine \<Rightarrow> string \<Rightarrow> page \<Rightarrow> page" where
  "page_after eng v pg = (case filterGallery eng v pg of Inr r \<Rightarrow> fst r | Inl err \<Rightarrow> pg)"

fun handle :: "engine \<Rightarrow> string option \<times> page \<Rightarrow> event \<Rightarrow> string option \<times> page" where
  "handle eng (lastVariantId, pg) (VariantChange v) =
     (if v = [] \<or> Some v = lastVariantId then (lastVariantId, pg)
      else (Some v, page_after eng v pg))"
| "handle eng (lastVariantId, pg) (SectionLoad v) = (lastVariantId, page_after eng v pg)"

definition run_script :: "(string \<Rightarrow> json option) \<Rightarrow> config \<Rightarrow> page \<Rightarrow> event list \<Rightarrow> page" where
  "run_script parse cfg pg events =
     (case boot parse cfg of
        None \<Rightarrow> pg
      | Some eng \<Rightarrow> snd (foldl (handle eng) (None, pg) events))"

section \<open>Admin page: assigning images\<close>




text \<open>No image ID under two different option values (keys) of a mapping.\<close>

definition exclusive :: "table \<Rightarrow> bool" where
  "exclusive M \<longleftrightarrow>
     (\<forall>a\<in>set (map fst M). \<forall>b\<in>set (map fst M).
        a \<noteq> b \<longrightarrow> images_of M a \<inter> images_of M b = {})"

text \<open>A visibility decision that reads nothing of an element but its image source.\<close>

definition reads_src_only :: "(element \<Rightarrow> bool) \<Rightarrow> bool" where
  "reads_src_only dec \<longleftrightarrow> (\<forall>a b. img_src a = img_src b \<longrightarrow> dec a = dec b)"

section \<open>Example data\<close>

text \<open>
  A product page as the theme app extension embeds it: option \<^verbatim>\<open>Color\<close>, images
  \<^verbatim>\<open>1\<close> (mapped to \<^verbatim>\<open>Black\<close>) and \<^verbatim>\<open>9\<close> (mapped to nothing), variants
  \<^verbatim>\<open>41\<close> (Black), \<^verbatim>\<open>42\<close> (a colour called \<^verbatim>\<open>constructor\<close>) and \<^verbatim>\<open>43\<close>
  (Red); a gallery of two elements and one thumbnail, showing resized renditions.
\<close>

definition demo_config :: config where
  "demo_config =
     \<lparr> cfg_mapping = Some (OptionShape ''Color'' [(''Black'', [''1''])]),
       cfg_imageUrls = Some [(''1'', ''https://cdn.shopify.com/s/files/1/products/a.jpg?v=1''),
                             (''9'', ''https://cdn.shopify.com/s/files/1/products/b.jpg?v=1'')],
       cfg_settings = JNull,
       cfg_optionNames = Some [''Color''],
       cfg_variantOptions = Some [(''41'', [''Black'']), (''42'', [''constructor'']), (''43'', [''Red''])] \<rparr>"

definition demo_engine :: engine where
  "demo_engine =
     \<lparr> mappingMode = ''option'', mappedOptionName = Some ''Color'',
       mappingTable = [(''Black'', [''1''])],
       optionNames = Some [''Color''],
       variantOptions = Some [(''41'', [''Black'']), (''42'', [''constructor'']), (''43'', [''Red''])],
       hideUnassigned = False,
       filenameToId = [(''a.jpg'', ''1''), (''b.jpg'', ''9'')] \<rparr>"

definition demo_element :: "string \<Rightarrow> element" where
  "demo_element src = \<lparr> img_src = src, display = None, aria_hidden = None, class_list = [] \<rparr>"

definition demo_page :: page where
  "demo_page =
     \<lparr> nodes = (\<lambda>i. if i = 0 then demo_element ''https://cdn.shopify.com/s/files/1/products/b_800x.jpg?v=1''
                       else demo_element ''https://cdn.shopify.com/s/files/1/products/a_800x.jpg?v=1''),
       gallery = [0, 1], thumbs = [2], current = None \<rparr>"

section \<open>Settings normalizer: results\<close>

lemma normalizeSettings_fields:
  assumes "safeParseJson parse raw (JObj []) \<noteq> JNull"
  shows "\<exists>s. normalizeSettings parse raw = Inr s
           \<and> enabled s = bool_field (safeParseJson parse raw (JObj [])) ''enabled'' True
           \<and> allowSharedImages s
               = bool_field (safeParseJson parse raw (JObj [])) ''allowSharedImages'' True
           \<and> hideUnassignedImages s
               = bool_field (safeParseJson parse raw (JObj [])) ''hideUnassignedImages'' False"
  using assms by (simp add: normalizeSettings_def Let_def DEFAULT_SETTINGS_def)

lemma normalizeSettings_object:
  "\<exists>s. normalizeSettings parse (JObj kvs) = Inr s
       \<and> enabled s = (case map_of kvs ''enabled'' of Some (JBool b) \<Rightarrow> b | _ \<Rightarrow> True)
       \<and> allowSharedImages s
           = (case map_of kvs ''allowSharedImages'' of Some (JBool b) \<Rightarrow> b | _ \<Rightarrow> True)
       \<and> hideUnassignedImages s
           = (case map_of kvs ''hideUnassignedImages'' of Some (JBool b) \<Rightarrow> b | _ \<Rightarrow> False)"
  by (simp add: normalizeSettings_def safeParseJson_def Let_def DEFAULT_SETTINGS_def bool_field_def)

lemma normalizeSettings_null_or_unparsable:
  assumes "raw = JNull \<or> raw = JStr [] \<or> (\<not> typeof_object raw \<and> parse (js_String raw) = None)"
  shows "normalizeSettings parse raw = Inr DEFAULT_SETTINGS"
  using assms
  by (auto simp: normalizeSettings_def safeParseJson_def Let_def DEFAULT_SETTINGS_def bool_field_def)

text \<open>
  C7. The settings normalizer is claimed to return a fully populated record for every
  input without throwing. For the raw value \<^verbatim>\<open>"null"\<close> (a string holding the JSON text
  \<^verbatim>\<open>null\<close>), \<^verbatim>\<open>JSON.parse\<close> succeeds with \<^verbatim>\<open>null\<close>, \<^verbatim>\<open>safeParseJson\<close> returns
  it instead of the fallback object, and reading \<^verbatim>\<open>input.enabled\<close> throws a TypeError:
  no record is returned.
\<close>

theorem normalizeSettings_json_null_throws:
  "parse ''null'' = Some JNull \<Longrightarrow> normalizeSettings parse (JStr ''null'') = Inl TypeError"
  by (simp add: normalizeSettings_def safeParseJson_def Let_def)

theorem normalizeSettings_json_null_throws_witness:
  "(\<lambda>s. if s = ''null'' then Some JNull else None) ''null'' = Some JNull
   \<and> normalizeSettings (\<lambda>s. if s = ''null'' then Some JNull else None) (JStr ''null'')
       = Inl TypeError"
  using normalizeSettings_json_null_throws [of "\<lambda>s. if s = ''null'' then Some JNull else None"]
  by simp

section \<open>Objects and sets: lemmas\<close>

lemma set_foldl_set_add: "set (foldl set_add acc xs) = set acc \<union> set xs"
  by (induction xs arbitrary: acc) (auto simp: set_add_def)

lemma distinct_foldl_set_add: "distinct acc \<Longrightarrow> distinct (foldl set_add acc xs)"
  by (induction xs arbitrary: acc) (auto simp: set_add_def)

lemma foldl_set_add_distinct: "distinct (acc @ xs) \<Longrightarrow> foldl set_add acc xs = acc @ xs"
  by (induction xs arbitrary: acc) (auto simp: set_add_def)

lemma set_dedupe: "set (dedupe xs) = set xs"
  by (simp add: dedupe_def set_foldl_set_add)

lemma distinct_dedupe: "distinct (dedupe xs)"
  by (simp add: dedupe_def distinct_foldl_set_add)

lemma dedupe_distinct: "distinct xs \<Longrightarrow> dedupe xs = xs"
  using foldl_set_add_distinct [of "[]" xs] by (simp add: dedupe_def)

lemma dedupe_eq_Nil: "dedupe xs = [] \<longleftrightarrow> xs = []"
  using set_dedupe [of xs] by (metis set_empty)

lemma set_update_subset: "set (AList.update k v al) \<subseteq> insert (k, v) (set al)"
  by (induction al) auto

lemma set_insert_index: "set (insert_index n k v ps) = insert (k, v) (set ps)"
  by (induction ps) (auto split: option.splits)

lemma set_js_define_subset: "set (js_define obj k v) \<subseteq> insert (k, v) (set obj)"
  using set_update_subset [of k v obj]
  by (auto simp: js_define_def set_insert_index split: option.splits)

lemma set_js_set_subset: "set (js_set obj k v) \<subseteq> insert (k, v) (set obj)"
  using set_js_define_subset [of obj k v] by (auto simp: js_set_def)

lemma map_of_insert_index':
  "map_of ps k = None \<Longrightarrow> map_of (insert_index n k v ps) x = ((map_of ps)(k \<mapsto> v)) x"
  by (induction ps) (auto split: option.splits if_splits)

lemma map_of_insert_index:
  "map_of ps k = None \<Longrightarrow> map_of (insert_index n k v ps) = (map_of ps)(k \<mapsto> v)"
  by (rule ext) (rule map_of_insert_index')

lemma map_of_snoc_fresh:
  "map_of ps k = None \<Longrightarrow> map_of (ps @ [(k, v)]) = (map_of ps)(k \<mapsto> v)"
  by (rule ext) (auto simp: map_add_def split: option.splits)

lemma map_of_js_define: "map_of (js_define obj k v) = (map_of obj)(k \<mapsto> v)"
  by (auto simp: js_define_def update_conv' map_of_insert_index map_of_snoc_fresh
        simp del: map_of_append split: option.splits)

lemma map_of_js_set:
  "map_of (js_set obj k v) =
     (if k = ''__proto__'' \<and> map_of obj k = None then map_of obj else (map_of obj)(k \<mapsto> v))"
  by (auto simp: js_set_def map_of_js_define)

lemma keys_insert_index: "fst ` set (insert_index n k v ps) = insert k (fst ` set ps)"
  by (simp add: set_insert_index)

lemma distinct_insert_index:
  "k \<notin> fst ` set ps \<Longrightarrow> distinct (map fst ps) \<Longrightarrow> distinct (map fst (insert_index n k v ps))"
  by (induction ps) (auto split: option.splits simp: set_insert_index)

lemma distinct_js_define:
  "distinct (map fst obj) \<Longrightarrow> distinct (map fst (js_define obj k v))"
  by (auto simp: js_define_def distinct_update distinct_insert_index map_of_eq_None_iff split: option.splits)

lemma distinct_js_set:
  "distinct (map fst obj) \<Longrightarrow> distinct (map fst (js_set obj k v))"
  by (simp add: js_set_def distinct_js_define)

lemma entry_imageIds_nonempty_elems: "i \<in> set (entry_imageIds tid S v) \<Longrightarrow> i \<noteq> []"
  by (auto simp: entry_imageIds_def set_dedupe)

lemma entry_imageIds_valid: "i \<in> set (entry_imageIds tid S v) \<Longrightarrow> in_valid S i"
  by (auto simp: entry_imageIds_def)

lemma entry_imageIds_distinct: "distinct (entry_imageIds tid S v)"
  by (simp add: entry_imageIds_def distinct_dedupe)

lemma option_step_inv:
  assumes "\<forall>e\<in>set T. P e"
    and "\<And>k v. k \<noteq> [] \<Longrightarrow> in_valid VS k \<Longrightarrow> entry_imageIds tid IS v \<noteq> []
           \<Longrightarrow> P (k, entry_imageIds tid IS v)"
  shows "\<forall>e\<in>set (option_step tid VS IS T x). P e"
proof -
  obtain k v where x: "x = (k, v)" by (cases x)
  show ?thesis
    using assms set_js_set_subset [of T k "entry_imageIds tid IS v"]
    by (auto simp: option_step_def Let_def x)
qed

lemma foldl_option_step_inv:
  assumes "\<forall>e\<in>set T. P e"
    and "\<And>k v. k \<noteq> [] \<Longrightarrow> in_valid VS k \<Longrightarrow> entry_imageIds tid IS v \<noteq> []
           \<Longrightarrow> P (k, entry_imageIds tid IS v)"
  shows "\<forall>e\<in>set (foldl (option_step tid VS IS) T es). P e"
  using assms(1)
proof (induction es arbitrary: T)
  case Nil
  then show ?case by simp
next
  case (Cons x es)
  have "\<forall>e\<in>set (option_step tid VS IS T x). P e"
    using option_step_inv [of T P VS tid IS x] Cons.prems assms(2) by blast
  then show ?case using Cons.IH by simp
qed

lemma normalizeOptionMapping_inv:
  assumes "\<And>k v. k \<noteq> [] \<Longrightarrow> in_valid (valid_set (\<lambda>x. x) vals) k
             \<Longrightarrow> entry_imageIds tid (valid_set tid imgs) v \<noteq> []
             \<Longrightarrow> P (k, entry_imageIds tid (valid_set tid imgs) v)"
  shows "\<forall>e\<in>set (normalizeOptionMapping parse tid raw vals imgs). P e"
proof (cases "unwrap_mapping (safeParseJson parse raw (JObj []))")
  case (JObj entries)
  then show ?thesis
    using foldl_option_step_inv [of "[]" P "valid_set (\<lambda>x. x) vals" tid "valid_set tid imgs" entries] assms
    by (simp add: normalizeOptionMapping_def)
qed (simp_all add: normalizeOptionMapping_def)

lemmas eval_defs =
  normalizeProductMapping_def safeParseJson_def normalizeMapping_def normalizeOptionMapping_def
  unwrap_mapping_def variant_step_def option_step_def valid_set_def in_valid_def
  entry_imageIds_def candidateImages_def dedupe_def set_add_def js_set_def js_define_def js_get_def
  object_prototype_keys_def array_index_def dec_val_def fallbackOptionName_def
  resolveOptionName_def optionValues_def optionValueByVariant_def selectedValue_def
  canonical_json_def encode_entry_def Let_def

section \<open>Identifiers: results\<close>

text \<open>The \<^verbatim>\<open>toNumericId\<close> of the admin block extension leaves its own results unchanged.\<close>

lemma last_segment_no_slash: "CHR ''/'' \<notin> set (last_segment s)"
  by (auto simp: last_segment_def dest: set_takeWhileD)

lemma last_segment_id:
  assumes "CHR ''/'' \<notin> set s"
  shows "last_segment s = s"
proof -
  have "\<forall>c\<in>set (rev s). c \<noteq> CHR ''/''" using assms by auto
  then have "takeWhile (\<lambda>c. c \<noteq> CHR ''/'') (rev s) = rev s"
    by (simp only: takeWhile_eq_all_conv)
  then show ?thesis by (simp only: last_segment_def rev_rev_ident)
qed

lemma toNumericId_idem: "toNumericId (JStr (toNumericId x)) = toNumericId x"
  by (simp add: toNumericId_def last_segment_id last_segment_no_slash)

section \<open>Option mapping normalizer: results\<close>

text \<open>
  C3 (as amended). The claim says that every key of the output of
  \<^verbatim>\<open>normalizeOptionMapping\<close> is in the valid option-value domain and every image ID in
  the valid image-ID domain, whatever the domains are. The code validates against a domain
  only when that domain is not empty (\<^verbatim>\<open>validOptionValues.length ? new Set(...) : null\<close>),
  and it compares image IDs in their numeric form. What holds: when the list of valid option
  values is not empty, every key of the output is one of them; when the list of valid image
  IDs is not empty, every image ID of every entry is the numeric form (\<open>tid\<close>) of one of
  them; and no entry of the output has an empty image list.
\<close>

theorem normalizeOptionMapping_domain:
  "(validOptionValues \<noteq> [] \<longrightarrow>
      (\<forall>e\<in>set (normalizeOptionMapping parse tid raw validOptionValues validImageIds).
         fst e \<in> set validOptionValues))
   \<and> (validImageIds \<noteq> [] \<longrightarrow>
      (\<forall>e\<in>set (normalizeOptionMapping parse tid raw validOptionValues validImageIds).
         set (snd e) \<subseteq> tid ` set validImageIds))
   \<and> (\<forall>e\<in>set (normalizeOptionMapping parse tid raw validOptionValues validImageIds).
         snd e \<noteq> [])"
proof (intro conjI impI)
  assume "validOptionValues \<noteq> []"
  then show "\<forall>e\<in>set (normalizeOptionMapping parse tid raw validOptionValues validImageIds).
         fst e \<in> set validOptionValues"
    by (intro normalizeOptionMapping_inv) (simp add: in_valid_def valid_set_def)
next
  assume ne: "validImageIds \<noteq> []"
  show "\<forall>e\<in>set (normalizeOptionMapping parse tid raw validOptionValues validImageIds).
         set (snd e) \<subseteq> tid ` set validImageIds"
  proof (intro normalizeOptionMapping_inv)
    fix k v
    show "set (snd (k, entry_imageIds tid (valid_set tid validImageIds) v)) \<subseteq> tid ` set validImageIds"
      using entry_imageIds_valid [of _ tid "valid_set tid validImageIds" v] ne
      by (auto simp: in_valid_def valid_set_def)
  qed
next
  show "\<forall>e\<in>set (normalizeOptionMapping parse tid raw validOptionValues validImageIds). snd e \<noteq> []"
    by (intro normalizeOptionMapping_inv) simp
qed

theorem normalizeOptionMapping_domain_witness:
  "[''Black'', ''Red''] \<noteq> [] \<and> [JStr ''gid://shopify/ProductImage/2222''] \<noteq> []
   \<and> normalizeOptionMapping Map.empty toNumericId
         (JObj [(''Black'', JArr [JStr ''gid://shopify/ProductImage/2222'', JStr ''2222'', JStr ''9'']),
                (''Blue'', JArr [JStr ''2222'']), (''Red'', JArr [JStr ''9''])])
         [''Black'', ''Red''] [JStr ''gid://shopify/ProductImage/2222'']
       = [(''Black'', [''2222''])]
   \<and> ''Black'' \<in> set [''Black'', ''Red'']
   \<and> set [''2222''] \<subseteq> toNumericId ` set [JStr ''gid://shopify/ProductImage/2222'']
   \<and> [''2222''] \<noteq> []"
  using normalizeOptionMapping_domain [of "[''Black'', ''Red'']" Map.empty toNumericId
      "JObj [(''Black'', JArr [JStr ''gid://shopify/ProductImage/2222'', JStr ''2222'', JStr ''9'']),
             (''Blue'', JArr [JStr ''2222'']), (''Red'', JArr [JStr ''9''])]"
      "[JStr ''gid://shopify/ProductImage/2222'']"]
  by (simp add: eval_defs toNumericId_def last_segment_def)

text \<open>
  With an empty list of valid option values nothing is filtered: the key \<^verbatim>\<open>Blue\<close> is
  in the output although the valid option-value domain is empty.
\<close>

theorem normalizeOptionMapping_empty_domain_counterexample:
  "normalizeOptionMapping Map.empty toNumericId (JObj [(''Blue'', JArr [JStr ''1''])]) [] [JStr ''1'']
     = [(''Blue'', [''1''])]
   \<and> ''Blue'' \<notin> set ([] :: string list)"
  by (simp add: eval_defs toNumericId_def last_segment_def)

section \<open>Product mapping normalizer: results\<close>

text \<open>
  C6. The end-to-end legacy scenario: the raw persisted value \<^verbatim>\<open>{"1111":["2222"]}\<close>
  (given as the object, or as a JSON text that \<^verbatim>\<open>JSON.parse\<close> reads as that object), one
  option \<^verbatim>\<open>Color\<close> with values \<^verbatim>\<open>[Black, Red]\<close>, the variant \<^verbatim>\<open>1111\<close> with
  \<^verbatim>\<open>selectedOptions = [{name: "Color", value: "Black"}]\<close>, and image \<^verbatim>\<open>2222\<close> among the
  valid images. For every \<^verbatim>\<open>toNumericId\<close> that leaves the bare numerals \<^verbatim>\<open>1111\<close> and
  \<^verbatim>\<open>2222\<close> as they are and gives \<^verbatim>\<open>1111\<close> for the variant's id,
  \<^verbatim>\<open>normalizeProductMapping\<close> returns exactly
  \<^verbatim>\<open>{mode: "option", optionName: "Color", mapping: {"Black": ["2222"]}}\<close>.
\<close>

theorem legacy_scenario:
  assumes "raw = JObj [(''1111'', JArr [JStr ''2222''])]
           \<or> (raw = JStr s \<and> s \<noteq> [] \<and> parse s = Some (JObj [(''1111'', JArr [JStr ''2222''])]))"
    and "tid (JStr ''1111'') = ''1111''" and "tid vid = ''1111''"
    and "tid (JStr ''2222'') = ''2222''"
    and "''2222'' \<in> tid ` set imageIds"
  shows "normalizeProductMapping parse tid raw
           [\<lparr> name = ''Color'', option_values = [''Black'', ''Red''] \<rparr>]
           [\<lparr> variant_id = vid, selectedOptions = Some [(''Color'', ''Black'')] \<rparr>]
           imageIds
         = Inr \<lparr> mode = ''option'', optionName = ''Color'', mapping = [(''Black'', [''2222''])] \<rparr>"
proof -
  let ?obj = "JObj [(''1111'', JArr [JStr ''2222''])]"
  have parsed: "safeParseJson parse raw (JObj []) = ?obj"
    using assms(1) by (auto simp: safeParseJson_def)
  have ne: "imageIds \<noteq> []" using assms(5) by auto
  have legacy: "normalizeMapping parse tid ?obj [vid] imageIds = [(''1111'', [''2222''])]"
    using assms(2,3,4,5) ne
    by (simp add: normalizeMapping_def safeParseJson_def unwrap_mapping_def variant_step_def
        valid_set_def in_valid_def entry_imageIds_def candidateImages_def dedupe_def set_add_def
        js_set_def js_define_def array_index_def Let_def)
  show ?thesis
    using assms(3)
    by (simp add: normalizeProductMapping_def parsed legacy fallbackOptionName_def
        optionValueByVariant_def selectedValue_def js_get_def object_prototype_keys_def
        js_set_def js_define_def array_index_def dedupe_def set_add_def Let_def)
qed

theorem legacy_scenario_witness:
  "toNumericId (JStr ''1111'') = ''1111''
   \<and> toNumericId (JStr ''gid://shopify/ProductVariant/1111'') = ''1111''
   \<and> toNumericId (JStr ''2222'') = ''2222''
   \<and> ''2222'' \<in> toNumericId ` set [JStr ''gid://shopify/ProductImage/2222'']
   \<and> normalizeProductMapping Map.empty toNumericId (JObj [(''1111'', JArr [JStr ''2222''])])
           [\<lparr> name = ''Color'', option_values = [''Black'', ''Red''] \<rparr>]
           [\<lparr> variant_id = JStr ''gid://shopify/ProductVariant/1111'',
               selectedOptions = Some [(''Color'', ''Black'')] \<rparr>]
           [JStr ''gid://shopify/ProductImage/2222'']
         = Inr \<lparr> mode = ''option'', optionName = ''Color'', mapping = [(''Black'', [''2222''])] \<rparr>"
proof -
  have a: "toNumericId (JStr ''1111'') = ''1111''" by (simp add: toNumericId_def last_segment_def)
  have v: "toNumericId (JStr ''gid://shopify/ProductVariant/1111'') = ''1111''"
    by (simp add: toNumericId_def last_segment_def)
  have b: "toNumericId (JStr ''2222'') = ''2222''" by (simp add: toNumericId_def last_segment_def)
  have c: "''2222'' \<in> toNumericId ` set [JStr ''gid://shopify/ProductImage/2222'']"
    by (simp add: toNumericId_def last_segment_def)
  have r: "JObj [(''1111'', JArr [JStr ''2222''])] = JObj [(''1111'', JArr [JStr ''2222''])]
           \<or> (JObj [(''1111'', JArr [JStr ''2222''])] = JStr []
               \<and> [] \<noteq> ([] :: string)
               \<and> Map.empty ([] :: string) = Some (JObj [(''1111'', JArr [JStr ''2222''])]))"
    by simp
  show ?thesis
    using a v b c legacy_scenario [OF r a v b c] by simp
qed

section \<open>Legacy migration: results\<close>

lemma images_of_js_set:
  "k \<noteq> ''__proto__'' \<Longrightarrow> images_of (js_set M k l) c = (if c = k then set l else images_of M c)"
  by (simp add: images_of_def map_of_js_set)

lemma js_get_Own: "js_get M k = Own l \<longleftrightarrow> map_of M k = Some l"
  by (auto simp: js_get_def split: option.splits)

lemma js_get_Absent: "js_get M k = Absent \<longleftrightarrow> map_of M k = None \<and> k \<notin> set object_prototype_keys"
  by (auto simp: js_get_def split: option.splits)

lemma proto_key: "''__proto__'' \<in> set object_prototype_keys"
  by (simp add: object_prototype_keys_def)

lemma migrate_images:
  assumes "migrate bv M es = Inr M'" and "map_of M ''__proto__'' = None"
  shows "i \<in> images_of M' c \<longleftrightarrow>
           i \<in> images_of M c \<or> (c \<noteq> [] \<and> (\<exists>e\<in>set es. bv (fst e) = Some c \<and> i \<in> set (snd e)))"
  using assms
proof (induction es arbitrary: M)
  case Nil
  then show ?case by simp
next
  case (Cons e es)
  show ?case
  proof (cases "bv (fst e)")
    case None
    then show ?thesis using Cons by auto
  next
    case (Some v)
    show ?thesis
    proof (cases "v = []")
      case True
      then show ?thesis using Cons Some by auto
    next
      case False
      show ?thesis
      proof (cases "js_get M v")
        case (Own old)
        then have own: "map_of M v = Some old" by (simp add: js_get_Own)
        then have np: "v \<noteq> ''__proto__''" using Cons.prems(2) by auto
        let ?M1 = "js_set M v (dedupe (old @ snd e))"
        have m: "migrate bv ?M1 es = Inr M'"
          using Cons.prems(1) Some False Own by simp
        have p: "map_of ?M1 ''__proto__'' = None"
          using Cons.prems(2) np by (simp add: map_of_js_set)
        have "images_of ?M1 c = (if c = v then set old \<union> set (snd e) else images_of M c)"
          using np by (simp add: images_of_js_set set_dedupe)
        moreover have "images_of M v = set old" using own by (simp add: images_of_def)
        ultimately show ?thesis
          using Cons.IH [OF m p] Some False by auto
      next
        case Inherited
        then show ?thesis using Cons.prems(1) Some False by simp
      next
        case Absent
        then have ab: "map_of M v = None" and np: "v \<noteq> ''__proto__''"
          using proto_key by (auto simp: js_get_Absent)
        let ?M1 = "js_set M v (dedupe (snd e))"
        have m: "migrate bv ?M1 es = Inr M'"
          using Cons.prems(1) Some False Absent by simp
        have p: "map_of ?M1 ''__proto__'' = None"
          using Cons.prems(2) np by (simp add: map_of_js_set)
        have "images_of ?M1 c = (if c = v then set (snd e) else images_of M c)"
          using np by (simp add: images_of_js_set set_dedupe)
        moreover have "images_of M v = {}" using ab by (simp add: images_of_def)
        ultimately show ?thesis
          using Cons.IH [OF m p] Some False by auto
      qed
    qed
  qed
qed

lemma migrate_distinct:
  assumes "migrate bv M es = Inr M'" and "\<forall>e\<in>set M. distinct (snd e)"
  shows "\<forall>e\<in>set M'. distinct (snd e)"
  using assms
proof (induction es arbitrary: M)
  case Nil
  then show ?case by simp
next
  case (Cons e es)
  have step: "\<And>v l. \<forall>x\<in>set (js_set M v (dedupe l)). distinct (snd x)"
    using Cons.prems(2) set_js_set_subset by (fastforce simp: distinct_dedupe)
  show ?case
    using Cons.prems Cons.IH step
    by (auto split: option.splits if_splits lookup.splits)
qed

lemma migrate_returns:
  assumes "\<forall>e\<in>set es. \<forall>v. bv (fst e) = Some v \<longrightarrow> v \<notin> set object_prototype_keys"
  shows "\<exists>M'. migrate bv M es = Inr M'"
  using assms
proof (induction es arbitrary: M)
  case Nil
  then show ?case by simp
next
  case (Cons e es)
  then show ?case
    by (auto simp: js_get_def split: option.splits)
qed

lemma migrate_throws:
  assumes "e \<in> set es" and "bv (fst e) = Some v" and "v \<in> set object_prototype_keys"
    and "\<forall>k\<in>set object_prototype_keys. map_of M k = None"
  shows "migrate bv M es = Inl TypeError"
  using assms
proof (induction es arbitrary: M)
  case Nil
  then show ?case by simp
next
  case (Cons x es)
  have keep: "\<And>w l. w \<notin> set object_prototype_keys \<Longrightarrow>
                \<forall>k\<in>set object_prototype_keys. map_of (js_set M w l) k = None"
    using Cons.prems(4) by (auto simp: map_of_js_set)
  have nil: "[] \<notin> set object_prototype_keys" by (simp add: object_prototype_keys_def)
  show ?case
  proof (cases "x = e")
    case True
    then show ?thesis
      using Cons.prems nil by (auto simp: js_get_def)
  next
    case False
    then have "e \<in> set es" using Cons.prems(1) by simp
    then show ?thesis
      using Cons.IH Cons.prems keep
      by (auto simp: js_get_def split: option.splits)
  qed
qed

lemma variant_step_inv:
  assumes "\<forall>e\<in>set T. P e"
    and "\<And>k v. k \<noteq> [] \<Longrightarrow> in_valid VS k \<Longrightarrow> entry_imageIds tid IS v \<noteq> []
           \<Longrightarrow> P (k, entry_imageIds tid IS v)"
  shows "\<forall>e\<in>set (variant_step tid VS IS T x). P e"
  using assms set_js_set_subset [of T "tid (JStr (fst x))" "entry_imageIds tid IS (snd x)"]
  by (auto simp: variant_step_def Let_def)

lemma foldl_variant_step_inv:
  assumes "\<forall>e\<in>set T. P e"
    and "\<And>k v. k \<noteq> [] \<Longrightarrow> in_valid VS k \<Longrightarrow> entry_imageIds tid IS v \<noteq> []
           \<Longrightarrow> P (k, entry_imageIds tid IS v)"
  shows "\<forall>e\<in>set (foldl (variant_step tid VS IS) T es). P e"
  using assms(1)
proof (induction es arbitrary: T)
  case Nil
  then show ?case by simp
next
  case (Cons x es)
  have "\<forall>e\<in>set (variant_step tid VS IS T x). P e"
    using variant_step_inv [of T P VS tid IS x] Cons.prems assms(2) by blast
  then show ?case using Cons.IH by simp
qed

lemma normalizeMapping_inv:
  assumes "\<And>k v. k \<noteq> [] \<Longrightarrow> in_valid (valid_set tid vids) k
             \<Longrightarrow> entry_imageIds tid (valid_set tid imgs) v \<noteq> []
             \<Longrightarrow> P (k, entry_imageIds tid (valid_set tid imgs) v)"
  shows "\<forall>e\<in>set (normalizeMapping parse tid raw vids imgs). P e"
proof (cases "unwrap_mapping (safeParseJson parse raw (JObj []))")
  case (JObj entries)
  then show ?thesis
    using foldl_variant_step_inv [of "[]" P "valid_set tid vids" tid "valid_set tid imgs" entries] assms
    by (simp add: normalizeMapping_def)
qed (simp_all add: normalizeMapping_def)

lemma foldl_variant_step_distinct:
  "distinct (map fst T) \<Longrightarrow> distinct (map fst (foldl (variant_step tid VS IS) T es))"
  by (induction es arbitrary: T) (simp_all add: variant_step_def Let_def distinct_js_set)

lemma normalizeMapping_distinct_keys:
  "distinct (map fst (normalizeMapping parse tid raw vids imgs))"
  by (cases "unwrap_mapping (safeParseJson parse raw (JObj []))")
     (simp_all add: normalizeMapping_def foldl_variant_step_distinct)

lemma foldl_option_step_distinct:
  "distinct (map fst T) \<Longrightarrow> distinct (map fst (foldl (option_step tid VS IS) T es))"
  by (induction es arbitrary: T) (simp_all add: option_step_def Let_def distinct_js_set)

lemma normalizeOptionMapping_distinct_keys:
  "distinct (map fst (normalizeOptionMapping parse tid raw vals imgs))"
  by (cases "unwrap_mapping (safeParseJson parse raw (JObj []))")
     (simp_all add: normalizeOptionMapping_def foldl_option_step_distinct)

lemma normalizeProductMapping_legacy:
  assumes "get_prop (safeParseJson parse raw (JObj [])) ''mode'' \<noteq> Some (JStr ''option'')"
  shows "normalizeProductMapping parse tid raw opts variants imgs =
           (case migrate (optionValueByVariant tid (fallbackOptionName opts) variants) []
                   (normalizeMapping parse tid (safeParseJson parse raw (JObj []))
                      (map variant_id variants) imgs) of
              Inl err \<Rightarrow> Inl err
            | Inr optionMap \<Rightarrow>
                Inr \<lparr> mode = ''option'', optionName = fallbackOptionName opts, mapping = optionMap \<rparr>)"
  using assms by (simp add: normalizeProductMapping_def Let_def)

text \<open>
  The union law of the legacy migration, for a run that returns: the images the migrated
  mapping holds under an option value are exactly the images of the entries of the filtered
  legacy map whose variant selects that value.
\<close>

theorem legacy_union_law:
  assumes "get_prop (safeParseJson parse raw (JObj [])) ''mode'' \<noteq> Some (JStr ''option'')"
    and "normalizeProductMapping parse tid raw opts variants imgs = Inr c"
  shows "i \<in> images_of (mapping c) v \<longleftrightarrow>
           v \<noteq> [] \<and>
           (\<exists>e\<in>set (normalizeMapping parse tid (safeParseJson parse raw (JObj []))
                       (map variant_id variants) imgs).
              optionValueByVariant tid (fallbackOptionName opts) variants (fst e) = Some v
              \<and> i \<in> set (snd e))"
proof -
  let ?bv = "optionValueByVariant tid (fallbackOptionName opts) variants"
  let ?LV = "normalizeMapping parse tid (safeParseJson parse raw (JObj [])) (map variant_id variants) imgs"
  have "migrate ?bv [] ?LV = Inr (mapping c)"
    using assms(2) unfolding normalizeProductMapping_legacy [OF assms(1)]
    by (auto split: sum.splits)
  from migrate_images [OF this, of i v] show ?thesis
    by (simp add: images_of_def)
qed

text \<open>
  For two variants that share an option value and are the only ones mapped to it, the
  migrated mapping holds under that value a duplicate-free list whose elements are those of
  the two image lists, provided no mapped variant selects a value that names a member of
  \<^verbatim>\<open>Object.prototype\<close>.
\<close>

theorem legacy_union_two_variants:
  assumes legacy: "get_prop (safeParseJson parse raw (JObj [])) ''mode'' \<noteq> Some (JStr ''option'')"
    and LV: "LV = normalizeMapping parse tid (safeParseJson parse raw (JObj []))
                    (map variant_id variants) imgs"
    and bv: "bv = optionValueByVariant tid (fallbackOptionName opts) variants"
    and e1: "(k1, l1) \<in> set LV" and e2: "(k2, l2) \<in> set LV"
    and v1: "bv k1 = Some v" and v2: "bv k2 = Some v" and ne: "v \<noteq> []"
    and only: "\<forall>e\<in>set LV. bv (fst e) = Some v \<longrightarrow> fst e = k1 \<or> fst e = k2"
    and noproto: "\<forall>e\<in>set LV. \<forall>w. bv (fst e) = Some w \<longrightarrow> w \<notin> set object_prototype_keys"
  shows "\<exists>c l. normalizeProductMapping parse tid raw opts variants imgs = Inr c
           \<and> map_of (mapping c) v = Some l \<and> set l = set l1 \<union> set l2 \<and> distinct l"
proof -
  obtain M where M: "migrate bv [] LV = Inr M"
    using migrate_returns [OF noproto] by blast
  let ?c = "\<lparr> mode = ''option'', optionName = fallbackOptionName opts, mapping = M \<rparr>"
  have ret: "normalizeProductMapping parse tid raw opts variants imgs = Inr ?c"
    using M unfolding normalizeProductMapping_legacy [OF legacy] LV bv by simp
  have dk: "distinct (map fst LV)"
    unfolding LV by (rule normalizeMapping_distinct_keys)
  have uniq: "\<And>k l l'. (k, l) \<in> set LV \<Longrightarrow> (k, l') \<in> set LV \<Longrightarrow> l = l'"
    using dk by (meson eq_key_imp_eq_value)
  have l1ne: "l1 \<noteq> []"
  proof -
    have "\<forall>e\<in>set LV. snd e \<noteq> []"
      unfolding LV by (intro normalizeMapping_inv) simp
    then show ?thesis using e1 by auto
  qed
  have mem: "\<And>i. i \<in> images_of M v \<longleftrightarrow> i \<in> set l1 \<union> set l2"
  proof -
    fix i
    have "i \<in> images_of M v \<longleftrightarrow> (\<exists>e\<in>set LV. bv (fst e) = Some v \<and> i \<in> set (snd e))"
      using migrate_images [OF M, of i v] ne by (simp add: images_of_def)
    also have "\<dots> \<longleftrightarrow> i \<in> set l1 \<union> set l2"
    proof
      assume "\<exists>e\<in>set LV. bv (fst e) = Some v \<and> i \<in> set (snd e)"
      then obtain k l where kl: "(k, l) \<in> set LV" "bv k = Some v" "i \<in> set l" by auto
      then have "k = k1 \<or> k = k2" using only by auto
      then show "i \<in> set l1 \<union> set l2"
        using kl e1 e2 uniq by blast
    next
      assume "i \<in> set l1 \<union> set l2"
      then show "\<exists>e\<in>set LV. bv (fst e) = Some v \<and> i \<in> set (snd e)"
        using e1 e2 v1 v2 by force
    qed
    finally show "i \<in> images_of M v \<longleftrightarrow> i \<in> set l1 \<union> set l2" .
  qed
  then have eq: "images_of M v = set l1 \<union> set l2" by blast
  then obtain l where l: "map_of M v = Some l"
    using l1ne by (cases "map_of M v") (auto simp: images_of_def)
  then have "set l = set l1 \<union> set l2" using eq by (simp add: images_of_def)
  moreover have "distinct l"
  proof -
    have "\<forall>e\<in>set M. distinct (snd e)"
      using migrate_distinct [OF M] by simp
    moreover have "(v, l) \<in> set M" using l by (rule map_of_SomeD)
    ultimately show ?thesis by auto
  qed
  ultimately show ?thesis using ret l by auto
qed

text \<open>
  C5. The union law is claimed for any two variants that share a value of the migration
  target option. When that value is the name of a member of \<^verbatim>\<open>Object.prototype\<close> (here
  a colour called \<^verbatim>\<open>constructor\<close>), \<^verbatim>\<open>optionMap[optionValue] ?? []\<close> reads the
  inherited member, spreading it throws a TypeError, and the migration returns no mapping
  at all.
\<close>

theorem legacy_migration_prototype_value_throws:
  "normalizeProductMapping Map.empty toNumericId
       (JObj [(''1111'', JArr [JStr ''2222'']), (''1112'', JArr [JStr ''3333''])])
       [\<lparr> name = ''Color'', option_values = [''constructor'', ''Red''] \<rparr>]
       [\<lparr> variant_id = JStr ''1111'', selectedOptions = Some [(''Color'', ''constructor'')] \<rparr>,
        \<lparr> variant_id = JStr ''1112'', selectedOptions = Some [(''Color'', ''constructor'')] \<rparr>]
       [JStr ''2222'', JStr ''3333'']
     = Inl TypeError"
  by (simp add: eval_defs toNumericId_def last_segment_def)

text \<open>The same product with the colour called \<^verbatim>\<open>Black\<close>: the union, as the spec's example has it.\<close>

lemma legacy_migration_union_example:
  "normalizeProductMapping Map.empty toNumericId
       (JObj [(''1111'', JArr [JStr ''2222'']), (''1112'', JArr [JStr ''3333''])])
       [\<lparr> name = ''Color'', option_values = [''Black'', ''Red''] \<rparr>]
       [\<lparr> variant_id = JStr ''1111'', selectedOptions = Some [(''Color'', ''Black'')] \<rparr>,
        \<lparr> variant_id = JStr ''1112'', selectedOptions = Some [(''Color'', ''Black'')] \<rparr>]
       [JStr ''2222'', JStr ''3333'']
     = Inr \<lparr> mode = ''option'', optionName = ''Color'',
              mapping = [(''Black'', [''2222'', ''3333''])] \<rparr>"
  by (simp add: eval_defs toNumericId_def last_segment_def)

theorem legacy_union_two_variants_witness:
  "\<exists>l. normalizeProductMapping Map.empty toNumericId
          (JObj [(''1111'', JArr [JStr ''2222'']), (''1112'', JArr [JStr ''3333''])])
          [\<lparr> name = ''Color'', option_values = [''Black'', ''Red''] \<rparr>]
          [\<lparr> variant_id = JStr ''1111'', selectedOptions = Some [(''Color'', ''Black'')] \<rparr>,
           \<lparr> variant_id = JStr ''1112'', selectedOptions = Some [(''Color'', ''Black'')] \<rparr>]
          [JStr ''2222'', JStr ''3333'']
        = Inr \<lparr> mode = ''option'', optionName = ''Color'', mapping = [(''Black'', l)] \<rparr>
      \<and> set l = {''2222'', ''3333''} \<and> distinct l"
proof -
  let ?raw = "JObj [(''1111'', JArr [JStr ''2222'']), (''1112'', JArr [JStr ''3333''])]"
  let ?opts = "[\<lparr> name = ''Color'', option_values = [''Black'', ''Red''] \<rparr>]"
  let ?vars = "[\<lparr> variant_id = JStr ''1111'', selectedOptions = Some [(''Color'', ''Black'')] \<rparr>,
                \<lparr> variant_id = JStr ''1112'', selectedOptions = Some [(''Color'', ''Black'')] \<rparr>]"
  let ?imgs = "[JStr ''2222'', JStr ''3333'']"
  let ?LV = "[(''1111'', [''2222'']), (''1112'', [''3333''])]"
  let ?bv = "optionValueByVariant toNumericId (fallbackOptionName ?opts) ?vars"
  have legacy: "get_prop (safeParseJson Map.empty ?raw (JObj [])) ''mode'' \<noteq> Some (JStr ''option'')"
    by (simp add: safeParseJson_def)
  have LV: "?LV = normalizeMapping Map.empty toNumericId (safeParseJson Map.empty ?raw (JObj []))
                    (map variant_id ?vars) ?imgs"
    by (simp add: eval_defs toNumericId_def last_segment_def)
  have bv1: "?bv ''1111'' = Some ''Black''" and bv2: "?bv ''1112'' = Some ''Black''"
    by (simp_all add: eval_defs toNumericId_def last_segment_def)
  have only: "\<forall>e\<in>set ?LV. ?bv (fst e) = Some ''Black'' \<longrightarrow> fst e = ''1111'' \<or> fst e = ''1112''"
    by simp
  have noproto: "\<forall>e\<in>set ?LV. \<forall>w. ?bv (fst e) = Some w \<longrightarrow> w \<notin> set object_prototype_keys"
    using bv1 bv2 by (simp add: object_prototype_keys_def)
  have ev: "normalizeProductMapping Map.empty toNumericId ?raw ?opts ?vars ?imgs
              = Inr \<lparr> mode = ''option'', optionName = ''Color'',
                       mapping = [(''Black'', [''2222'', ''3333''])] \<rparr>"
    by (rule legacy_migration_union_example)
  obtain c l where c: "normalizeProductMapping Map.empty toNumericId ?raw ?opts ?vars ?imgs = Inr c"
    and l: "map_of (mapping c) ''Black'' = Some l" "set l = set [''2222''] \<union> set [''3333'']" "distinct l"
    using legacy_union_two_variants [OF legacy LV refl _ _ bv1 bv2 _ only noproto,
        of "[''2222'']" "[''3333'']"]
    by auto
  have "c = \<lparr> mode = ''option'', optionName = ''Color'',
              mapping = [(''Black'', [''2222'', ''3333''])] \<rparr>"
    using c ev by simp
  then have "l = [''2222'', ''3333'']" using l(1) by simp
  then show ?thesis using ev by auto
qed

section \<open>Normalizing a canonical mapping again\<close>

lemma no_proto_js_set:
  "map_of obj ''__proto__'' = None \<Longrightarrow> map_of (js_set obj k v) ''__proto__'' = None"
  by (simp add: map_of_js_set)

lemma foldl_option_step_no_proto:
  "map_of T ''__proto__'' = None
     \<Longrightarrow> map_of (foldl (option_step tid VS IS) T es) ''__proto__'' = None"
  by (induction es arbitrary: T) (simp_all add: option_step_def Let_def no_proto_js_set)

lemma normalizeOptionMapping_no_proto:
  "map_of (normalizeOptionMapping parse tid raw vals imgs) ''__proto__'' = None"
  by (cases "unwrap_mapping (safeParseJson parse raw (JObj []))")
     (simp_all add: normalizeOptionMapping_def foldl_option_step_no_proto)

lemma migrate_no_proto:
  "migrate bv M es = Inr M' \<Longrightarrow> map_of M ''__proto__'' = None \<Longrightarrow> map_of M' ''__proto__'' = None"
proof (induction es arbitrary: M)
  case Nil
  then show ?case by simp
next
  case (Cons e es)
  then show ?case
    by (auto simp: no_proto_js_set split: option.splits if_splits lookup.splits)
qed

lemma migrate_distinct_keys:
  "migrate bv M es = Inr M' \<Longrightarrow> distinct (map fst M) \<Longrightarrow> distinct (map fst M')"
proof (induction es arbitrary: M)
  case Nil
  then show ?case by simp
next
  case (Cons e es)
  then show ?case
    by (auto simp: distinct_js_set split: option.splits if_splits lookup.splits)
qed

lemma migrate_entries:
  assumes "migrate bv M es = Inr M'"
    and "\<forall>e\<in>set M. K (fst e) \<and> snd e \<noteq> [] \<and> (\<forall>i\<in>set (snd e). I i)"
    and "\<forall>e\<in>set es. snd e \<noteq> [] \<and> (\<forall>i\<in>set (snd e). I i)"
    and "\<forall>e\<in>set es. \<forall>v. bv (fst e) = Some v \<longrightarrow> v \<noteq> [] \<longrightarrow> K v"
  shows "\<forall>e\<in>set M'. K (fst e) \<and> snd e \<noteq> [] \<and> (\<forall>i\<in>set (snd e). I i)"
  using assms
proof (induction es arbitrary: M)
  case Nil
  then show ?case by simp
next
  case (Cons e es)
  let ?P = "\<lambda>e. K (fst e) \<and> snd e \<noteq> [] \<and> (\<forall>i\<in>set (snd e). I i)"
  have rest: "\<forall>e\<in>set es. snd e \<noteq> [] \<and> (\<forall>i\<in>set (snd e). I i)"
    "\<forall>e\<in>set es. \<forall>v. bv (fst e) = Some v \<longrightarrow> v \<noteq> [] \<longrightarrow> K v"
    using Cons.prems(3,4) by simp_all
  have e: "snd e \<noteq> []" "\<forall>i\<in>set (snd e). I i"
    using Cons.prems(3) by simp_all
  show ?case
  proof (cases "bv (fst e)")
    case None
    then have "migrate bv M es = Inr M'" using Cons.prems(1) by simp
    then show ?thesis using Cons.IH Cons.prems(2) rest by blast
  next
    case (Some v)
    show ?thesis
    proof (cases "v = []")
      case True
      then have "migrate bv M es = Inr M'" using Cons.prems(1) Some by simp
      then show ?thesis using Cons.IH Cons.prems(2) rest by blast
    next
      case False
      have Kv: "K v" using Cons.prems(4) Some False by simp
      show ?thesis
      proof (cases "js_get M v")
        case (Own old)
        then have "(v, old) \<in> set M" by (simp add: js_get_Own map_of_SomeD)
        then have old: "\<forall>i\<in>set old. I i" using Cons.prems(2) by fastforce
        let ?M1 = "js_set M v (dedupe (old @ snd e))"
        have m: "migrate bv ?M1 es = Inr M'"
          using Cons.prems(1) Some False Own by simp
        have "?P (v, dedupe (old @ snd e))"
          using Kv e old by (auto simp: set_dedupe dedupe_eq_Nil)
        then have "\<forall>x\<in>set ?M1. ?P x"
          using Cons.prems(2) set_js_set_subset [of M v "dedupe (old @ snd e)"] by blast
        then show ?thesis using Cons.IH [OF m _ rest] by blast
      next
        case Inherited
        then show ?thesis using Cons.prems(1) Some False by simp
      next
        case Absent
        let ?M1 = "js_set M v (dedupe (snd e))"
        have m: "migrate bv ?M1 es = Inr M'"
          using Cons.prems(1) Some False Absent by simp
        have "?P (v, dedupe (snd e))"
          using Kv e by (auto simp: set_dedupe dedupe_eq_Nil)
        then have "\<forall>x\<in>set ?M1. ?P x"
          using Cons.prems(2) set_js_set_subset [of M v "dedupe (snd e)"] by blast
        then show ?thesis using Cons.IH [OF m _ rest] by blast
      qed
    qed
  qed
qed

lemma optionValueByVariant_from_variant:
  assumes "foldl (\<lambda>m v. m(tid (variant_id v) := selectedValue n v)) m0 variants k = Some val"
  shows "m0 k = Some val \<or> (\<exists>v\<in>set variants. selectedValue n v = Some val)"
  using assms
proof (induction variants arbitrary: m0)
  case Nil
  then show ?case by simp
next
  case (Cons v vs)
  have "foldl (\<lambda>m v. m(tid (variant_id v) := selectedValue n v))
          (m0(tid (variant_id v) := selectedValue n v)) vs k = Some val"
    using Cons.prems by (simp only: foldl_Cons)
  from Cons.IH [OF this]
  show ?case by (auto split: if_splits)
qed

lemma entry_imageIds_canonical:
  assumes "\<forall>i\<in>set ids. i \<noteq> [] \<and> tid (JStr i) = i \<and> in_valid IS i" and "distinct ids"
  shows "entry_imageIds tid IS (JArr (map JStr ids)) = ids"
proof -
  have "map tid (map JStr ids) = ids"
    using assms(1) by (induction ids) simp_all
  moreover have "filter (\<lambda>i. i \<noteq> []) ids = ids"
    using assms(1) by (induction ids) simp_all
  moreover have "filter (in_valid IS) ids = ids"
    using assms(1) by (induction ids) simp_all
  ultimately show ?thesis
    using assms(2) by (simp add: entry_imageIds_def candidateImages_def dedupe_distinct)
qed

lemma foldl_option_step_canonical:
  assumes "\<forall>e\<in>set T. fst e \<noteq> [] \<and> in_valid VS (fst e) \<and> snd e \<noteq> [] \<and> distinct (snd e)
             \<and> (\<forall>i\<in>set (snd e). i \<noteq> [] \<and> tid (JStr i) = i \<and> in_valid IS i)"
  shows "foldl (option_step tid VS IS) acc (map encode_entry T)
           = foldl (\<lambda>acc e. js_set acc (fst e) (snd e)) acc T"
  using assms
proof (induction T arbitrary: acc)
  case Nil
  then show ?case by simp
next
  case (Cons e T)
  have "entry_imageIds tid IS (JArr (map JStr (snd e))) = snd e"
    using Cons.prems by (intro entry_imageIds_canonical) simp_all
  then have "option_step tid VS IS acc (encode_entry e) = js_set acc (fst e) (snd e)"
    using Cons.prems by (simp add: option_step_def encode_entry_def Let_def)
  then show ?case using Cons by simp
qed

lemma map_of_foldl_js_set:
  assumes "distinct (map fst T)" and "map_of T ''__proto__'' = None"
  shows "map_of (foldl (\<lambda>acc e. js_set acc (fst e) (snd e)) acc T) k
           = (case map_of T k of Some v \<Rightarrow> Some v | None \<Rightarrow> map_of acc k)"
  using assms
proof (induction T arbitrary: acc)
  case Nil
  then show ?case by simp
next
  case (Cons e T)
  obtain k0 v0 where e: "e = (k0, v0)" by (cases e)
  have np: "k0 \<noteq> ''__proto__''" using Cons.prems(2) e by (auto split: if_splits)
  have d: "distinct (map fst T)" and p: "map_of T ''__proto__'' = None"
    and fresh: "map_of T k0 = None"
    using Cons.prems e by (auto simp: map_of_eq_None_iff split: if_splits)
  have "map_of (foldl (\<lambda>acc e. js_set acc (fst e) (snd e)) (js_set acc k0 v0) T) k
          = (case map_of T k of Some v \<Rightarrow> Some v | None \<Rightarrow> map_of (js_set acc k0 v0) k)"
    by (rule Cons.IH [OF d p])
  then show ?case
    using np fresh by (auto simp: e map_of_js_set split: option.splits)
qed

lemma map_of_encode:
  "map_of (map encode_entry T) k = map_option (\<lambda>ids. JArr (map JStr ids)) (map_of T k)"
  by (induction T) (auto simp: encode_entry_def)

lemma second_pass:
  assumes "\<forall>e\<in>set T. fst e \<noteq> [] \<and> in_valid (valid_set (\<lambda>x. x) vals) (fst e) \<and> snd e \<noteq> []
             \<and> distinct (snd e)
             \<and> (\<forall>i\<in>set (snd e). i \<noteq> [] \<and> tid (JStr i) = i \<and> in_valid (valid_set tid imgs) i)"
    and "distinct (map fst T)" and "map_of T ''__proto__'' = None"
    and "map_of T ''mapping'' = None"
  shows "map_of (normalizeOptionMapping parse tid (JObj (map encode_entry T)) vals imgs) = map_of T"
proof -
  have "unwrap_mapping (safeParseJson parse (JObj (map encode_entry T)) (JObj []))
          = JObj (map encode_entry T)"
    using assms(4) by (simp add: safeParseJson_def unwrap_mapping_def map_of_encode)
  then have "normalizeOptionMapping parse tid (JObj (map encode_entry T)) vals imgs
          = foldl (\<lambda>acc e. js_set acc (fst e) (snd e)) [] T"
    using foldl_option_step_canonical [OF assms(1), of "[]"]
    by (simp add: normalizeOptionMapping_def)
  then show ?thesis
    using map_of_foldl_js_set [OF assms(2,3), of "[]"]
    by (auto split: option.splits)
qed

lemma entry_imageIds_tid_image: "i \<in> set (entry_imageIds tid S v) \<Longrightarrow> \<exists>x. i = tid x"
  by (auto simp: entry_imageIds_def set_dedupe)

lemma resolveOptionName_cases:
  "resolveOptionName opts p \<in> set (map name opts)
     \<or> resolveOptionName opts p = fallbackOptionName opts"
  by (auto simp: resolveOptionName_def split: option.splits json.splits)

lemma fallbackOptionName_resolves:
  "n \<in> set (map name opts) \<or> n = fallbackOptionName opts
     \<Longrightarrow> (if n \<in> set (map name opts) then n else fallbackOptionName opts) = n"
  by auto

lemma canonical_json_props:
  "get_prop (canonical_json c) ''mode'' = Some (JStr (mode c))"
  "get_prop (canonical_json c) ''optionName'' = Some (JStr (optionName c))"
  "get_prop (canonical_json c) ''mapping'' = Some (JObj (map encode_entry (mapping c)))"
  "safeParseJson parse (canonical_json c) fb = canonical_json c"
  by (simp_all add: canonical_json_def safeParseJson_def)

lemma canonical_entry_new:
  assumes "\<forall>x. tid (JStr (tid x)) = tid x"
    and "k \<noteq> []" and "in_valid VS k" and "entry_imageIds tid IS v \<noteq> []"
  shows "canonical_entry tid VS IS (k, entry_imageIds tid IS v)"
  unfolding canonical_entry_def
  using assms entry_imageIds_distinct [of tid IS v] entry_imageIds_nonempty_elems [of _ tid IS v]
    entry_imageIds_valid [of _ tid IS v] entry_imageIds_tid_image [of _ tid IS v]
  by (metis fst_conv snd_conv)

lemma option_branch_canonical:
  assumes "\<forall>x. tid (JStr (tid x)) = tid x"
  shows "\<forall>e\<in>set (normalizeOptionMapping parse tid raw vals imgs).
           canonical_entry tid (valid_set (\<lambda>x. x) vals) (valid_set tid imgs) e"
  by (intro normalizeOptionMapping_inv canonical_entry_new [OF assms])

lemma legacy_branch_canonical:
  assumes idem: "\<forall>x. tid (JStr (tid x)) = tid x"
    and m: "migrate (optionValueByVariant tid n variants) []
              (normalizeMapping parse tid raw vids imgs) = Inr M"
    and wf: "\<forall>v\<in>set variants. \<forall>val. selectedValue n v = Some val \<longrightarrow> in_valid VS val"
  shows "\<forall>e\<in>set M. canonical_entry tid VS (valid_set tid imgs) e"
proof -
  let ?LV = "normalizeMapping parse tid raw vids imgs"
  let ?IS = "valid_set tid imgs"
  let ?I = "\<lambda>i. i \<noteq> [] \<and> tid (JStr i) = i \<and> in_valid ?IS i"
  let ?K = "\<lambda>v. v \<noteq> [] \<and> in_valid VS v"
  have lv: "\<forall>e\<in>set ?LV. canonical_entry tid (valid_set tid vids) ?IS e"
    by (intro normalizeMapping_inv canonical_entry_new [OF idem])
  then have l1: "\<forall>e\<in>set ?LV. snd e \<noteq> [] \<and> (\<forall>i\<in>set (snd e). ?I i)"
    by (simp add: canonical_entry_def)
  have l2: "\<forall>e\<in>set ?LV. \<forall>v. optionValueByVariant tid n variants (fst e) = Some v
              \<longrightarrow> v \<noteq> [] \<longrightarrow> ?K v"
  proof (intro ballI allI impI)
    fix e v
    assume "optionValueByVariant tid n variants (fst e) = Some v" and ne: "v \<noteq> []"
    then have "\<exists>x\<in>set variants. selectedValue n x = Some v"
      using optionValueByVariant_from_variant [of tid n "\<lambda>k. None" variants "fst e" v]
      by (simp add: optionValueByVariant_def)
    then show "?K v" using wf ne by blast
  qed
  have l0: "\<forall>e\<in>set []. ?K (fst e) \<and> snd e \<noteq> [] \<and> (\<forall>i\<in>set (snd e). ?I i)" by simp
  have a: "\<forall>e\<in>set M. ?K (fst e) \<and> snd e \<noteq> [] \<and> (\<forall>i\<in>set (snd e). ?I i)"
    by (rule migrate_entries [OF m l0 l1 l2])
  have d: "\<forall>e\<in>set M. distinct (snd e)"
    using migrate_distinct [OF m] by simp
  show ?thesis
    using a d by (simp add: canonical_entry_def)
qed

lemma second_pass':
  assumes "\<forall>e\<in>set T. canonical_entry tid (valid_set (\<lambda>x. x) vals) (valid_set tid imgs) e"
    and "distinct (map fst T)" and "map_of T ''__proto__'' = None"
    and "map_of T ''mapping'' = None"
  shows "map_of (normalizeOptionMapping parse tid (JObj (map encode_entry T)) vals imgs) = map_of T"
  using assms(1) unfolding canonical_entry_def by (rule second_pass [OF _ assms(2,3,4)])

text \<open>
  Apart from an option value called \<^verbatim>\<open>mapping\<close>, a second pass changes nothing: if
  \<^verbatim>\<open>toNumericId\<close> leaves its own results unchanged, every variant's value of the first
  option is one of that option's declared values, and the first result has no key
  \<^verbatim>\<open>mapping\<close>, then normalizing the result again gives the same mode, the same option
  name and the same image list under every key.
\<close>

theorem normalizeProductMapping_idempotent:
  assumes ret: "normalizeProductMapping parse tid raw opts variants imgs = Inr c"
    and idem: "\<forall>x. tid (JStr (tid x)) = tid x"
    and nokey: "map_of (mapping c) ''mapping'' = None"
    and wf: "\<forall>v\<in>set variants. \<forall>val. selectedValue (fallbackOptionName opts) v = Some val \<longrightarrow>
               in_valid (valid_set (\<lambda>x. x) (optionValues opts (fallbackOptionName opts))) val"
  shows "\<exists>c'. normalizeProductMapping parse tid (canonical_json c) opts variants imgs = Inr c'
           \<and> mode c' = mode c \<and> optionName c' = optionName c
           \<and> map_of (mapping c') = map_of (mapping c)"
proof -
  let ?parsed = "safeParseJson parse raw (JObj [])"
  let ?n = "optionName c"
  let ?VS = "valid_set (\<lambda>x. x) (optionValues opts ?n)"
  let ?IS = "valid_set tid imgs"
  have facts: "mode c = ''option''
      \<and> (?n \<in> set (map name opts) \<or> ?n = fallbackOptionName opts)
      \<and> (\<forall>e\<in>set (mapping c). canonical_entry tid ?VS ?IS e)
      \<and> distinct (map fst (mapping c)) \<and> map_of (mapping c) ''__proto__'' = None"
  proof (cases "get_prop ?parsed ''mode'' = Some (JStr ''option'')")
    case True
    let ?raw = "case get_prop ?parsed ''mapping'' of
                  None \<Rightarrow> JObj [] | Some JNull \<Rightarrow> JObj [] | Some m \<Rightarrow> m"
    have c: "c = \<lparr> mode = ''option'', optionName = resolveOptionName opts ?parsed,
                   mapping = normalizeOptionMapping parse tid ?raw
                     (optionValues opts (resolveOptionName opts ?parsed)) imgs \<rparr>"
      using ret True by (simp add: normalizeProductMapping_def Let_def)
    show ?thesis
      unfolding c
      using resolveOptionName_cases [of opts ?parsed] option_branch_canonical [OF idem]
      by (simp add: normalizeOptionMapping_distinct_keys normalizeOptionMapping_no_proto)
  next
    case False
    let ?fb = "fallbackOptionName opts"
    let ?LV = "normalizeMapping parse tid ?parsed (map variant_id variants) imgs"
    obtain M where M: "migrate (optionValueByVariant tid ?fb variants) [] ?LV = Inr M"
      and c: "c = \<lparr> mode = ''option'', optionName = ?fb, mapping = M \<rparr>"
      using ret unfolding normalizeProductMapping_legacy [OF False]
      by (auto split: sum.splits)
    have "\<forall>e\<in>set M. canonical_entry tid (valid_set (\<lambda>x. x) (optionValues opts ?fb)) ?IS e"
      by (rule legacy_branch_canonical [OF idem M wf])
    moreover have "distinct (map fst M)" using migrate_distinct_keys [OF M] by simp
    moreover have "map_of M ''__proto__'' = None" using migrate_no_proto [OF M] by simp
    ultimately show ?thesis unfolding c by simp
  qed
  let ?c' = "\<lparr> mode = ''option'', optionName = ?n,
               mapping = normalizeOptionMapping parse tid (JObj (map encode_entry (mapping c)))
                           (optionValues opts ?n) imgs \<rparr>"
  have rn: "resolveOptionName opts (canonical_json c) = ?n"
    using facts by (auto simp: resolveOptionName_def canonical_json_props)
  have "normalizeProductMapping parse tid (canonical_json c) opts variants imgs = Inr ?c'"
    using facts by (simp add: normalizeProductMapping_def canonical_json_props rn Let_def)
  moreover have "map_of (mapping ?c') = map_of (mapping c)"
    using second_pass' [of "mapping c" tid "optionValues opts ?n" imgs parse] facts nokey
    by simp
  ultimately show ?thesis using facts by simp
qed

theorem normalizeProductMapping_idempotent_witness:
  "\<exists>c'. normalizeProductMapping Map.empty toNumericId
           (canonical_json \<lparr> mode = ''option'', optionName = ''Color'',
                              mapping = [(''Black'', [''2222'', ''3333''])] \<rparr>)
           [\<lparr> name = ''Color'', option_values = [''Black'', ''Red''] \<rparr>]
           [\<lparr> variant_id = JStr ''1111'', selectedOptions = Some [(''Color'', ''Black'')] \<rparr>,
            \<lparr> variant_id = JStr ''1112'', selectedOptions = Some [(''Color'', ''Black'')] \<rparr>]
           [JStr ''2222'', JStr ''3333'']
         = Inr c'
      \<and> mode c' = ''option'' \<and> optionName c' = ''Color''
      \<and> map_of (mapping c') = map_of [(''Black'', [''2222'', ''3333''])]"
proof -
  let ?raw = "JObj [(''1111'', JArr [JStr ''2222'']), (''1112'', JArr [JStr ''3333''])]"
  let ?opts = "[\<lparr> name = ''Color'', option_values = [''Black'', ''Red''] \<rparr>]"
  let ?vars = "[\<lparr> variant_id = JStr ''1111'', selectedOptions = Some [(''Color'', ''Black'')] \<rparr>,
                \<lparr> variant_id = JStr ''1112'', selectedOptions = Some [(''Color'', ''Black'')] \<rparr>]"
  let ?imgs = "[JStr ''2222'', JStr ''3333'']"
  let ?c = "\<lparr> mode = ''option'', optionName = ''Color'',
              mapping = [(''Black'', [''2222'', ''3333''])] \<rparr>"
  have ret: "normalizeProductMapping Map.empty toNumericId ?raw ?opts ?vars ?imgs = Inr ?c"
    by (rule legacy_migration_union_example)
  have idem: "\<forall>x. toNumericId (JStr (toNumericId x)) = toNumericId x"
    by (rule allI) (rule toNumericId_idem)
  have nokey: "map_of (mapping ?c) ''mapping'' = None" by simp
  have wf: "\<forall>v\<in>set ?vars. \<forall>val. selectedValue (fallbackOptionName ?opts) v = Some val \<longrightarrow>
              in_valid (valid_set (\<lambda>x. x) (optionValues ?opts (fallbackOptionName ?opts))) val"
    by (simp add: selectedValue_def fallbackOptionName_def optionValues_def in_valid_def valid_set_def)
  show ?thesis
    using normalizeProductMapping_idempotent [OF ret idem nokey wf] by simp
qed

text \<open>
  C4. Idempotence of \<^verbatim>\<open>normalizeProductMapping\<close> on its own output fails for a product
  one of whose option values is called \<^verbatim>\<open>mapping\<close>. The first pass (here through the
  legacy branch) returns the mapping \<^verbatim>\<open>{"mapping": ["2222"]}\<close>; on the second pass
  \<^verbatim>\<open>normalizeOptionMapping\<close> takes the entry under the key \<^verbatim>\<open>mapping\<close> for the
  backward-compatible wrapper \<^verbatim>\<open>{mapping: {...}}\<close>, finds an array there and returns the
  empty mapping.
\<close>

theorem normalizeProductMapping_not_idempotent:
  "normalizeProductMapping Map.empty toNumericId (JObj [(''1111'', JArr [JStr ''2222''])])
       [\<lparr> name = ''Color'', option_values = [''mapping'', ''Red''] \<rparr>]
       [\<lparr> variant_id = JStr ''1111'', selectedOptions = Some [(''Color'', ''mapping'')] \<rparr>]
       [JStr ''2222'']
     = Inr \<lparr> mode = ''option'', optionName = ''Color'', mapping = [(''mapping'', [''2222''])] \<rparr>
   \<and> normalizeProductMapping Map.empty toNumericId
       (canonical_json \<lparr> mode = ''option'', optionName = ''Color'', mapping = [(''mapping'', [''2222''])] \<rparr>)
       [\<lparr> name = ''Color'', option_values = [''mapping'', ''Red''] \<rparr>]
       [\<lparr> variant_id = JStr ''1111'', selectedOptions = Some [(''Color'', ''mapping'')] \<rparr>]
       [JStr ''2222'']
     = Inr \<lparr> mode = ''option'', optionName = ''Color'', mapping = [] \<rparr>"
  by (simp add: eval_defs toNumericId_def last_segment_def)

section \<open>Image identity: results\<close>

lemma not_digit_chars [simp]:
  "\<not> is_digit CHR ''x''" "\<not> is_digit CHR ''_''" "\<not> is_digit CHR ''.''"
  "\<not> is_digit CHR ''/''" "\<not> is_digit CHR ''?''"
  by (simp_all add: is_digit_def)

lemma strip_size_suffix_match:
  assumes "\<forall>c\<in>set d1. is_digit c" and "\<forall>c\<in>set d2. is_digit c"
    and "ext \<noteq> []" and "CHR ''.'' \<notin> set ext"
  shows "strip_size_suffix (pre @ ''_'' @ d1 @ ''x'' @ d2 @ ''.'' @ ext) = pre @ ''.'' @ ext"
proof -
  let ?nm = "pre @ ''_'' @ d1 @ ''x'' @ d2 @ ''.'' @ ext"
  have r: "rev ?nm = rev ext @ CHR ''.'' # (rev d2 @ CHR ''x'' # (rev d1 @ CHR ''_'' # rev pre))"
    by simp
  have t: "takeWhile (\<lambda>c. c \<noteq> CHR ''.'') (rev ?nm) = rev ext"
    unfolding r using assms(4) by (subst takeWhile_append2) auto
  have d: "dropWhile (\<lambda>c. c \<noteq> CHR ''.'') (rev ?nm)
             = CHR ''.'' # (rev d2 @ CHR ''x'' # (rev d1 @ CHR ''_'' # rev pre))"
    unfolding r using assms(4) by (subst dropWhile_append2) auto
  have d2: "dropWhile is_digit (rev d2 @ CHR ''x'' # (rev d1 @ CHR ''_'' # rev pre))
             = CHR ''x'' # (rev d1 @ CHR ''_'' # rev pre)"
    using assms(2) by (subst dropWhile_append2) auto
  have d1: "dropWhile is_digit (rev d1 @ CHR ''_'' # rev pre) = CHR ''_'' # rev pre"
    using assms(1) by (subst dropWhile_append2) auto
  show ?thesis
    unfolding strip_size_suffix_def t d using assms(3) by (simp add: d2 d1)
qed

lemma strip_size_suffix_changes:
  assumes "strip_size_suffix nm \<noteq> nm"
  shows "\<exists>pre d1 d2 ext. nm = pre @ ''_'' @ d1 @ ''x'' @ d2 @ ''.'' @ ext
           \<and> (\<forall>c\<in>set d1. is_digit c) \<and> (\<forall>c\<in>set d2. is_digit c)
           \<and> ext \<noteq> [] \<and> CHR ''.'' \<notin> set ext"
proof -
  let ?ne = "\<lambda>c. c \<noteq> CHR ''.''"
  obtain stem_r where dr: "dropWhile ?ne (rev nm) = CHR ''.'' # stem_r"
    using assms hd_dropWhile [of ?ne "rev nm"]
    by (cases "dropWhile ?ne (rev nm)") (auto simp: strip_size_suffix_def Let_def)
  let ?ext_r = "takeWhile ?ne (rev nm)"
  have ext_ne: "?ext_r \<noteq> []"
    using assms dr by (auto simp: strip_size_suffix_def Let_def)
  obtain s1 where ds: "dropWhile is_digit stem_r = CHR ''x'' # s1"
    using assms dr ext_ne
    by (cases "dropWhile is_digit stem_r") (auto simp: strip_size_suffix_def Let_def split: if_splits)
  obtain s2 where ds1: "dropWhile is_digit s1 = CHR ''_'' # s2"
    using assms dr ext_ne ds
    by (cases "dropWhile is_digit s1") (auto simp: strip_size_suffix_def Let_def split: if_splits)
  have a: "rev nm = ?ext_r @ CHR ''.'' # stem_r"
    using takeWhile_dropWhile_id [of ?ne "rev nm"] dr by simp
  have b: "stem_r = takeWhile is_digit stem_r @ CHR ''x'' # s1"
    using takeWhile_dropWhile_id [of is_digit stem_r] ds by simp
  have c: "s1 = takeWhile is_digit s1 @ CHR ''_'' # s2"
    using takeWhile_dropWhile_id [of is_digit s1] ds1 by simp
  have "rev nm = ?ext_r @ CHR ''.'' # (takeWhile is_digit stem_r @ CHR ''x'' #
                   (takeWhile is_digit s1 @ CHR ''_'' # s2))"
    using a b c by metis
  then have "nm = rev (?ext_r @ CHR ''.'' # (takeWhile is_digit stem_r @ CHR ''x'' #
                   (takeWhile is_digit s1 @ CHR ''_'' # s2)))"
    by (metis rev_rev_ident)
  then have nm: "nm = rev s2 @ ''_'' @ rev (takeWhile is_digit s1) @ ''x''
                    @ rev (takeWhile is_digit stem_r) @ ''.'' @ rev ?ext_r"
    by simp
  have "\<forall>c\<in>set (rev (takeWhile is_digit s1)). is_digit c"
    and "\<forall>c\<in>set (rev (takeWhile is_digit stem_r)). is_digit c"
    by (auto dest: set_takeWhileD)
  moreover have "rev ?ext_r \<noteq> []" using ext_ne by simp
  moreover have "CHR ''.'' \<notin> set (rev ?ext_r)" by (auto dest: set_takeWhileD)
  ultimately show ?thesis using nm by blast
qed

lemma strip_size_suffix_no_match:
  assumes "\<not> (\<exists>pre d1 d2 ext. nm = pre @ ''_'' @ d1 @ ''x'' @ d2 @ ''.'' @ ext
           \<and> (\<forall>c\<in>set d1. is_digit c) \<and> (\<forall>c\<in>set d2. is_digit c)
           \<and> ext \<noteq> [] \<and> CHR ''.'' \<notin> set ext)"
  shows "strip_size_suffix nm = nm"
  using assms strip_size_suffix_changes by blast

lemma last_segment_append:
  assumes "CHR ''/'' \<notin> set nm"
  shows "last_segment (dir @ ''/'' @ nm) = nm"
proof -
  have "rev (dir @ ''/'' @ nm) = rev nm @ CHR ''/'' # rev dir" by simp
  moreover have "takeWhile (\<lambda>c. c \<noteq> CHR ''/'') (rev nm @ CHR ''/'' # rev dir) = rev nm"
    using assms by (subst takeWhile_append2) auto
  ultimately show ?thesis by (simp add: last_segment_def)
qed

lemma takeWhile_query:
  assumes "CHR ''?'' \<notin> set p" and "q = [] \<or> hd q = CHR ''?''"
  shows "takeWhile (\<lambda>c. c \<noteq> CHR ''?'') (p @ q) = p"
  using assms by (cases q) (auto simp: takeWhile_tail)

text \<open>
  C8. \<^verbatim>\<open>baseFilename\<close> drops the query string, keeps the final path segment, and removes
  a size suffix \<^verbatim>\<open>_<digits>x<digits>\<close> standing before the extension (either run of digits
  may be empty): a URL \<open>dir/pre_d1xd2.ext\<close>, with or without a query, gives \<open>pre.ext\<close>.
\<close>

theorem baseFilename_strips:
  assumes "nm = pre @ ''_'' @ d1 @ ''x'' @ d2 @ ''.'' @ ext"
    and "\<forall>c\<in>set d1. is_digit c" and "\<forall>c\<in>set d2. is_digit c"
    and "ext \<noteq> []" and "CHR ''.'' \<notin> set ext"
    and "CHR ''/'' \<notin> set nm" and "CHR ''?'' \<notin> set (dir @ nm)"
    and "q = [] \<or> hd q = CHR ''?''"
  shows "baseFilename (dir @ ''/'' @ nm @ q) = pre @ ''.'' @ ext"
proof -
  have "CHR ''?'' \<notin> set (dir @ ''/'' @ nm)" using assms(7) by simp
  then have "takeWhile (\<lambda>c. c \<noteq> CHR ''?'') ((dir @ ''/'' @ nm) @ q) = dir @ ''/'' @ nm"
    using assms(8) by (rule takeWhile_query)
  then have "baseFilename (dir @ ''/'' @ nm @ q) = strip_size_suffix (last_segment (dir @ ''/'' @ nm))"
    by (simp add: baseFilename_def)
  also have "\<dots> = strip_size_suffix nm"
    using assms(6) last_segment_append [of nm dir] by simp
  also have "\<dots> = pre @ ''.'' @ ext"
    unfolding assms(1) using assms(2-5) by (rule strip_size_suffix_match)
  finally show ?thesis .
qed

text \<open>The two URLs of the claim both give \<^verbatim>\<open>a.jpg\<close>.\<close>

theorem baseFilename_strips_witness:
  "baseFilename ''https://cdn.shopify.com/s/files/1/0001/products/a_800x.jpg?v=2'' = ''a.jpg''
   \<and> baseFilename ''https://cdn.shopify.com/s/files/1/0001/products/a_400x600.jpg'' = ''a.jpg''"
proof -
  have "baseFilename (''https://cdn.shopify.com/s/files/1/0001/products'' @ ''/'' @ ''a_800x.jpg'' @ ''?v=2'')
          = ''a'' @ ''.'' @ ''jpg''"
    by (rule baseFilename_strips [where ?d1.0 = "''800''" and ?d2.0 = "[]"])
       (simp_all add: is_digit_def)
  moreover
  have "baseFilename (''https://cdn.shopify.com/s/files/1/0001/products'' @ ''/'' @ ''a_400x600.jpg'' @ [])
          = ''a'' @ ''.'' @ ''jpg''"
    by (rule baseFilename_strips [where ?d1.0 = "''400''" and ?d2.0 = "''600''"])
       (simp_all add: is_digit_def)
  ultimately show ?thesis by simp
qed

section \<open>Resolution engine: results\<close>

lemma setVisible_src [simp]: "img_src (setVisible el b) = img_src el"
  by (simp add: setVisible_def)

lemma setVisible_marks:
  "marked_visible (setVisible el True)" "marked_hidden (setVisible el False)"
  by (simp_all add: setVisible_def marked_visible_def marked_hidden_def)

lemma marked_excl: "marked_hidden el \<Longrightarrow> \<not> marked_visible el"
  by (simp add: marked_visible_def marked_hidden_def)

lemma setVisible_idem: "setVisible (setVisible el b) b = setVisible el b"
  by (simp add: setVisible_def)

lemma reads_src_only_setVisible:
  "reads_src_only dec \<Longrightarrow> dec (setVisible el b) = dec el"
  unfolding reads_src_only_def using setVisible_src by blast

lemma apply_visibility_Nil: "apply_visibility dec [] ns = ns"
  by (simp add: apply_visibility_def)

lemma apply_visibility_Cons:
  "apply_visibility dec (i # ids) ns
     = apply_visibility dec ids (ns(i := setVisible (ns i) (dec (ns i))))"
  by (simp add: apply_visibility_def)

lemma apply_visibility_at:
  assumes "reads_src_only dec"
  shows "apply_visibility dec ids ns j
           = (if j \<in> set ids then setVisible (ns j) (dec (ns j)) else ns j)"
proof (induction ids arbitrary: ns)
  case Nil
  show ?case by (simp add: apply_visibility_Nil)
next
  case (Cons i ids)
  show ?case
    unfolding apply_visibility_Cons Cons.IH
    by (simp add: reads_src_only_setVisible [OF assms] setVisible_idem)
qed

lemma two_passes_at:
  assumes "reads_src_only dec"
  shows "apply_visibility dec t (apply_visibility dec g ns) j
           = (if j \<in> set g \<union> set t then setVisible (ns j) (dec (ns j)) else ns j)"
  by (simp add: apply_visibility_at [OF assms] reads_src_only_setVisible [OF assms]
      setVisible_idem)

lemma is_visible_src: "reads_src_only (is_visible eng ids)"
  by (simp add: reads_src_only_def is_visible_def)

lemma const_src: "reads_src_only (\<lambda>el. b)"
  by (simp add: reads_src_only_def)

lemma showNone_nodes:
  "nodes (showNone pg) i
     = (if i \<in> set (gallery pg) \<union> set (thumbs pg) then setVisible (nodes pg i) False
        else nodes pg i)"
  by (simp add: showNone_def two_passes_at [OF const_src])

lemma baseFilename_demo:
  "baseFilename ''https://cdn.shopify.com/s/files/1/products/a.jpg?v=1'' = ''a.jpg''"
  "baseFilename ''https://cdn.shopify.com/s/files/1/products/b.jpg?v=1'' = ''b.jpg''"
  "baseFilename ''https://cdn.shopify.com/s/files/1/products/a_800x.jpg?v=1'' = ''a.jpg''"
  "baseFilename ''https://cdn.shopify.com/s/files/1/products/b_800x.jpg?v=1'' = ''b.jpg''"
  by (simp_all add: baseFilename_def last_segment_def strip_size_suffix_def is_digit_def)

lemma boot_demo: "boot Map.empty demo_config = Some demo_engine"
  by (simp add: boot_def demo_config_def demo_engine_def setting_or_def build_filenameToId_def
      baseFilename_demo js_set_def js_define_def array_index_def)

lemma mappingKey_demo:
  "mappingKey demo_engine ''41'' = ''Black''"
  "mappingKey demo_engine ''42'' = ''constructor''"
  "mappingKey demo_engine ''43'' = ''Red''"
  by (simp_all add: mappingKey_def demo_engine_def selectedOption_def)

lemma demo_engine_fields:
  "mappingTable demo_engine = [(''Black'', [''1''])]"
  "hideUnassigned demo_engine = False"
  "filenameToId demo_engine = [(''a.jpg'', ''1''), (''b.jpg'', ''9'')]"
  by (simp_all add: demo_engine_def)

text \<open>
  Fail-closed lookup, where the lookup \<^verbatim>\<open>mappingTable[mappingKey]\<close> finds nothing: one
  pass marks every gallery element and every thumbnail element hidden.
\<close>

theorem fail_closed_absent:
  assumes "variantId \<noteq> []"
    and "js_get (mappingTable eng) (mappingKey eng variantId) = Absent"
  shows "\<exists>pg'. filterGallery eng variantId pg = Inr (pg', None)
           \<and> (\<forall>i\<in>set (gallery pg) \<union> set (thumbs pg). marked_hidden (nodes pg' i))"
  using assms by (auto simp: filterGallery_def showNone_nodes setVisible_marks)

theorem fail_closed_absent_witness:
  "''43'' \<noteq> [] \<and> js_get (mappingTable demo_engine) (mappingKey demo_engine ''43'') = Absent
   \<and> set (gallery demo_page) \<union> set (thumbs demo_page) = {0, 1, 2}
   \<and> (\<exists>pg'. filterGallery demo_engine ''43'' demo_page = Inr (pg', None)
          \<and> marked_hidden (nodes pg' 0) \<and> marked_hidden (nodes pg' 1) \<and> marked_hidden (nodes pg' 2))"
proof -
  have 1: "''43'' \<noteq> []" by simp
  have 2: "js_get (mappingTable demo_engine) (mappingKey demo_engine ''43'') = Absent"
    by (simp add: mappingKey_demo js_get_def object_prototype_keys_def demo_engine_fields)
  have 3: "set (gallery demo_page) \<union> set (thumbs demo_page) = {0, 1, 2}"
    by (auto simp: demo_page_def)
  show ?thesis
    using 1 2 3 fail_closed_absent [OF 1 2, of demo_page] by auto
qed

text \<open>
  C1. Fail-closed lookup is claimed for every selected variant whose mapping key has no
  entry in the mapping table. For variant \<^verbatim>\<open>42\<close> of the example the key is
  \<^verbatim>\<open>constructor\<close>; the table has no entry for it, but \<^verbatim>\<open>mappingTable["constructor"]\<close>
  is the inherited \<^verbatim>\<open>Object.prototype.constructor\<close>, so the script skips \<^verbatim>\<open>showNone\<close>
  and \<^verbatim>\<open>new Set(allowedIds)\<close> throws: the page is left as it was, nothing is hidden.
\<close>

theorem fail_closed_prototype_key_throws:
  "boot Map.empty demo_config = Some demo_engine
   \<and> mappingKey demo_engine ''42'' = ''constructor''
   \<and> map_of (mappingTable demo_engine) ''constructor'' = None
   \<and> filterGallery demo_engine ''42'' demo_page = Inl TypeError
   \<and> run_script Map.empty demo_config demo_page [VariantChange ''42''] = demo_page
   \<and> \<not> marked_hidden (nodes demo_page 0)"
proof -
  have t: "filterGallery demo_engine ''42'' demo_page = Inl TypeError"
    by (simp add: filterGallery_def mappingKey_demo js_get_def object_prototype_keys_def
        demo_engine_fields)
  have "run_script Map.empty demo_config demo_page [VariantChange ''42''] = demo_page"
    by (simp add: run_script_def boot_demo page_after_def t)
  moreover have "\<not> marked_hidden (nodes demo_page 0)"
    by (simp add: marked_hidden_def demo_page_def demo_element_def)
  moreover have "map_of (mappingTable demo_engine) ''constructor'' = None"
    by (simp add: demo_engine_fields)
  ultimately show ?thesis using t boot_demo mappingKey_demo(2) by simp
qed

text \<open>
  C2 (as amended). An element whose image is in no mapping entry is claimed to be visible
  under every selected variant when \<^verbatim>\<open>hideUnassignedImages\<close> is false. The lookup of the
  selected variant's mapping key comes first, and the pass shows such images only once the
  lookup has found an entry; and the pass returns before the thumbnails when it finds no
  gallery element. What holds: when \<^verbatim>\<open>hideUnassignedImages\<close> is false, the selected
  variant's mapping key has an entry of its own in the mapping table and the gallery is not
  empty, every gallery or thumbnail element that resolves to an image ID found in no
  mapping entry is marked visible by the pass.
\<close>

theorem unassigned_passthrough:
  assumes "\<not> hideUnassigned eng"
    and "variantId \<noteq> []"
    and "js_get (mappingTable eng) (mappingKey eng variantId) = Own allowedIds"
    and "gallery pg \<noteq> []"
    and "i \<in> set (gallery pg) \<union> set (thumbs pg)"
    and "js_get (filenameToId eng) (baseFilename (img_src (nodes pg i))) = Own imgId"
    and "imgId \<noteq> []"
    and "imgId \<notin> set (allAssignedImageIds (mappingTable eng))"
  shows "\<exists>pg' clicked. filterGallery eng variantId pg = Inr (pg', clicked)
           \<and> marked_visible (nodes pg' i)"
proof -
  let ?dec = "is_visible eng allowedIds"
  let ?ns = "apply_visibility ?dec (thumbs pg) (apply_visibility ?dec (gallery pg) (nodes pg))"
  have vis: "?dec (nodes pg i)"
    using assms(1,6,7,8) by (simp add: is_visible_def)
  have "?ns i = setVisible (nodes pg i) True"
    using assms(5) vis by (simp add: two_passes_at [OF is_visible_src])
  then have "marked_visible (?ns i)" by (simp add: setVisible_marks)
  then show ?thesis
    using assms(2,3,4) by (simp add: filterGallery_def Let_def)
qed

theorem unassigned_passthrough_witness:
  "\<not> hideUnassigned demo_engine \<and> ''41'' \<noteq> []
   \<and> js_get (mappingTable demo_engine) (mappingKey demo_engine ''41'') = Own [''1'']
   \<and> gallery demo_page \<noteq> [] \<and> 0 \<in> set (gallery demo_page) \<union> set (thumbs demo_page)
   \<and> js_get (filenameToId demo_engine) (baseFilename (img_src (nodes demo_page 0))) = Own ''9''
   \<and> ''9'' \<noteq> [] \<and> ''9'' \<notin> set (allAssignedImageIds (mappingTable demo_engine))
   \<and> (\<exists>pg' clicked. filterGallery demo_engine ''41'' demo_page = Inr (pg', clicked)
          \<and> marked_visible (nodes pg' 0))"
proof -
  have 1: "\<not> hideUnassigned demo_engine" by (simp add: demo_engine_fields)
  have 2: "''41'' \<noteq> []" by simp
  have 3: "js_get (mappingTable demo_engine) (mappingKey demo_engine ''41'') = Own [''1'']"
    by (simp add: mappingKey_demo js_get_def demo_engine_fields)
  have 4: "gallery demo_page \<noteq> []" by (simp add: demo_page_def)
  have 5: "0 \<in> set (gallery demo_page) \<union> set (thumbs demo_page)" by (simp add: demo_page_def)
  have 6: "js_get (filenameToId demo_engine) (baseFilename (img_src (nodes demo_page 0))) = Own ''9''"
    by (simp add: demo_page_def demo_element_def baseFilename_demo js_get_def demo_engine_fields)
  have 7: "''9'' \<noteq> []" by simp
  have 8: "''9'' \<notin> set (allAssignedImageIds (mappingTable demo_engine))"
    by (simp add: allAssignedImageIds_def demo_engine_fields)
  show ?thesis
    using 1 2 3 4 5 6 7 8 unassigned_passthrough [OF 1 2 3 4 5 6 7 8] by blast
qed

text \<open>
  Variant \<^verbatim>\<open>43\<close> (Red) has no entry: the element showing image \<^verbatim>\<open>9\<close>, which no entry
  holds, is hidden although \<^verbatim>\<open>hideUnassignedImages\<close> is false.
\<close>

theorem unassigned_hidden_counterexample:
  "\<not> hideUnassigned demo_engine
   \<and> js_get (filenameToId demo_engine) (baseFilename (img_src (nodes demo_page 0))) = Own ''9''
   \<and> ''9'' \<notin> set (allAssignedImageIds (mappingTable demo_engine))
   \<and> filterGallery demo_engine ''43'' demo_page = Inr (showNone demo_page, None)
   \<and> marked_hidden (nodes (showNone demo_page) 0)
   \<and> \<not> marked_visible (nodes (showNone demo_page) 0)"
proof -
  have "filterGallery demo_engine ''43'' demo_page = Inr (showNone demo_page, None)"
    by (simp add: filterGallery_def mappingKey_demo js_get_def object_prototype_keys_def
        demo_engine_fields)
  moreover have h: "marked_hidden (nodes (showNone demo_page) 0)"
    by (simp add: showNone_nodes demo_page_def setVisible_marks)
  moreover have "\<not> marked_visible (nodes (showNone demo_page) 0)"
    using h by (rule marked_excl)
  moreover have "js_get (filenameToId demo_engine) (baseFilename (img_src (nodes demo_page 0))) = Own ''9''"
    by (simp add: demo_page_def demo_element_def baseFilename_demo js_get_def demo_engine_fields)
  moreover have "''9'' \<notin> set (allAssignedImageIds (mappingTable demo_engine))"
    by (simp add: allAssignedImageIds_def demo_engine_fields)
  moreover have "\<not> hideUnassigned demo_engine" by (simp add: demo_engine_fields)
  ultimately show ?thesis by simp
qed

section \<open>Start-up: results\<close>

lemma setting_enabled_false:
  "map_of kvs ''enabled'' = Some (JBool False)
     \<Longrightarrow> \<not> truthy (setting_or (JObj kvs) ''enabled'' (JBool True))"
  by (simp add: setting_or_def)

text \<open>
  C10. When the embedded settings (an object, or a JSON text of one) have
  \<^verbatim>\<open>enabled = false\<close>, the script returns before \<^verbatim>\<open>init\<close> is scheduled: no engine, no
  handler, and whatever events the page sees afterwards, every element (its display state,
  its \<^verbatim>\<open>aria-hidden\<close> attribute, its class list) is as it was.
\<close>

theorem disabled_script_is_inert:
  assumes "map_of kvs ''enabled'' = Some (JBool False)"
    and "cfg_settings cfg = JObj kvs \<or> (cfg_settings cfg = JStr s \<and> parse s = Some (JObj kvs))"
  shows "boot parse cfg = None \<and> run_script parse cfg pg events = pg"
proof -
  have parsed: "(case cfg_settings cfg of
                   JStr s \<Rightarrow> (case parse s of Some v \<Rightarrow> v | None \<Rightarrow> JNull)
                 | v \<Rightarrow> v) = JObj kvs"
  proof (cases "cfg_settings cfg = JObj kvs")
    case True
    then show ?thesis by simp
  next
    case False
    then have "cfg_settings cfg = JStr s" and "parse s = Some (JObj kvs)"
      using assms(2) by blast+
    then show ?thesis by simp
  qed
  have off: "\<not> truthy (setting_or (JObj kvs) ''enabled'' (JBool True))"
    by (rule setting_enabled_false [OF assms(1)])
  have "boot parse cfg = None"
  proof (cases "cfg_mapping cfg")
    case None
    then show ?thesis by (simp add: boot_def)
  next
    case (Some m)
    show ?thesis
    proof (cases "cfg_imageUrls cfg")
      case None
      then show ?thesis using Some by (simp add: boot_def)
    next
      case (Some urls)
      then show ?thesis
        using \<open>cfg_mapping cfg = Some m\<close> off
        unfolding boot_def Let_def parsed by simp
    qed
  qed
  then show ?thesis by (simp add: run_script_def)
qed

theorem disabled_script_is_inert_witness:
  "map_of [(''enabled'', JBool False)] ''enabled'' = Some (JBool False)
   \<and> cfg_settings (demo_config\<lparr> cfg_settings := JObj [(''enabled'', JBool False)] \<rparr>)
       = JObj [(''enabled'', JBool False)]
   \<and> boot Map.empty (demo_config\<lparr> cfg_settings := JObj [(''enabled'', JBool False)] \<rparr>) = None
   \<and> run_script Map.empty (demo_config\<lparr> cfg_settings := JObj [(''enabled'', JBool False)] \<rparr>)
         demo_page [VariantChange ''43'', SectionLoad ''43''] = demo_page"
proof -
  have 1: "map_of [(''enabled'', JBool False)] ''enabled'' = Some (JBool False)" by simp
  have 2: "cfg_settings (demo_config\<lparr> cfg_settings := JObj [(''enabled'', JBool False)] \<rparr>)
             = JObj [(''enabled'', JBool False)]" by simp
  show ?thesis
    using 1 2 disabled_script_is_inert [OF 1 disjI1 [OF 2], of Map.empty demo_page
        "[VariantChange ''43'', SectionLoad ''43'']"]
    by simp
qed

text \<open>With the default settings the same events do change the page.\<close>

lemma enabled_script_hides:
  "run_script Map.empty demo_config demo_page [VariantChange ''43'', SectionLoad ''43'']
     = showNone (showNone demo_page)"
proof -
  have "\<And>pg. filterGallery demo_engine ''43'' pg = Inr (showNone pg, None)"
    by (simp add: filterGallery_def mappingKey_demo js_get_def object_prototype_keys_def
        demo_engine_fields)
  then show ?thesis
    by (simp add: run_script_def boot_demo page_after_def)
qed

section \<open>Assigning images: results\<close>
















lemma exclusive_example: "exclusive [(''Red'', [''img1''])]"
  by (simp add: exclusive_def)





end
